theory Spec2Isabelle
  imports Complex_Main "HOL-Library.Sublist" "HOL-Library.Product_Lexorder"
begin

section \<open>Strings as the code uses them\<close>

text \<open>
  A Python \<open>str\<close> is modelled as a \<open>string\<close> (a list of characters). Case folding and
  the whitespace class are the ASCII ones: \<open>str.lower\<close> maps \<open>A..Z\<close> to \<open>a..z\<close> and leaves
  every other character alone, and \<open>str.strip\<close>, \<open>str.split\<close> and the regular
  expression class \<open>\s\<close> all use the same whitespace test (codes 9 to 13, 28 to 31 and 32).
\<close>

definition lower_char :: "char \<Rightarrow> char" where
  "lower_char c =
     (let n = (of_char c :: nat) in if 65 \<le> n \<and> n \<le> 90 then char_of (n + 32) else c)"

definition lower :: "string \<Rightarrow> string" where
  "lower s = map lower_char s"

definition is_space :: "char \<Rightarrow> bool" where
  "is_space c =
     (let n = (of_char c :: nat) in (9 \<le> n \<and> n \<le> 13) \<or> (28 \<le> n \<and> n \<le> 32))"

definition strip :: "string \<Rightarrow> string" where
  "strip s = rev (dropWhile is_space (rev (dropWhile is_space s)))"

text \<open>\<open>sub in s\<close> of Python: \<open>sub\<close> occurs in \<open>s\<close> as a contiguous block.\<close>

fun contains :: "string \<Rightarrow> string \<Rightarrow> bool" where
  "contains [] sub = (sub = [])"
| "contains (c # cs) sub = (prefix sub (c # cs) \<or> contains cs sub)"

section \<open>The alias table\<close>

text \<open>
  \<open>SKILL_ALIASES\<close> of \<^verbatim>\<open>skills.py\<close>, as an association list in the order of the dict
  literal (a Python dict iterates in insertion order).
\<close>

definition SKILL_ALIASES :: "(string \<times> string list) list" where
  "SKILL_ALIASES =
    [(''javascript'', [''js'', ''ecmascript'', ''node.js'', ''nodejs'', ''node js'']),
     (''typescript'', [''ts'']),
     (''python'', [''py'', ''python3'', ''python2'']),
     (''java'', [''java8'', ''java11'', ''java17'', ''jdk'', ''jre'']),
     (''c#'', [''csharp'', ''c sharp'', ''.net'', ''dotnet'']),
     (''c++'', [''cpp'', ''c plus plus'']),
     (''objective-c'', [''objc'', ''objective c'']),
     (''go'', [''golang'']),
     (''ruby'', [''rb'']),
     (''php'', [''php7'', ''php8'']),
     (''swift'', [''ios'', ''swiftui'']),
     (''kotlin'', [''kt'']),
     (''scala'', [''sc'']),
     (''r'', [''r-lang'', ''rstudio'']),
     (''react'', [''reactjs'', ''react.js'', ''react js'']),
     (''vue'', [''vuejs'', ''vue.js'', ''vue js'']),
     (''angular'', [''angularjs'', ''angular.js'', ''angular js'']),
     (''express'', [''expressjs'', ''express.js'']),
     (''django'', [''python django'']),
     (''flask'', [''python flask'']),
     (''spring'', [''spring boot'', ''springboot'', ''spring framework'']),
     (''laravel'', [''php laravel'']),
     (''rails'', [''ruby on rails'', ''rubyonrails'', ''ror'']),
     (''asp.net'', [''aspnet'', ''asp net'']),
     (''jquery'', [''jquery.js'']),
     (''bootstrap'', [''bootstrap css'']),
     (''tailwind'', [''tailwindcss'', ''tailwind css'']),
     (''postgresql'', [''postgres'', ''psql'']),
     (''mysql'', [''my sql'']),
     (''mongodb'', [''mongo'', ''mongo db'']),
     (''redis'', [''redis cache'']),
     (''elasticsearch'', [''elastic search'', ''es'']),
     (''oracle'', [''oracle db'', ''oracledb'']),
     (''sql server'', [''sqlserver'', ''mssql'', ''ms sql'']),
     (''sqlite'', [''sqlite3'']),
     (''dynamodb'', [''dynamo db'', ''dynamo'']),
     (''cassandra'', [''apache cassandra'']),
     (''aws'', [''amazon web services'', ''amazon aws'']),
     (''azure'', [''microsoft azure'', ''ms azure'']),
     (''gcp'', [''google cloud'', ''google cloud platform'']),
     (''docker'', [''containerization'']),
     (''kubernetes'', [''k8s'', ''k8'']),
     (''jenkins'', [''ci/cd'', ''cicd'']),
     (''terraform'', [''iac'', ''infrastructure as code'']),
     (''ansible'', [''configuration management'']),
     (''git'', [''github'', ''gitlab'', ''bitbucket'', ''version control'']),
     (''ci/cd'', [''continuous integration'', ''continuous deployment'', ''cicd'']),
     (''rest'', [''rest api'', ''restful'', ''restful api'']),
     (''graphql'', [''graph ql'']),
     (''microservices'', [''micro services'', ''service oriented architecture'', ''soa'']),
     (''machine learning'', [''ml'', ''artificial intelligence'', ''ai'']),
     (''deep learning'', [''dl'', ''neural networks'']),
     (''data science'', [''ds'', ''data analysis'']),
     (''big data'', [''bigdata'', ''hadoop'', ''spark'']),
     (''blockchain'', [''bitcoin'', ''ethereum'', ''crypto'']),
     (''api'', [''apis'', ''web services'']),
     (''json'', [''javascript object notation'']),
     (''xml'', [''extensible markup language'']),
     (''html'', [''html5'', ''hypertext markup language'']),
     (''css'', [''css3'', ''cascading style sheets'']),
     (''sass'', [''scss'']),
     (''less'', [''lesscss'']),
     (''webpack'', [''bundler'']),
     (''babel'', [''transpiler'']),
     (''npm'', [''node package manager'']),
     (''yarn'', [''package manager'']),
     (''agile'', [''scrum'', ''kanban'']),
     (''tdd'', [''test driven development'']),
     (''bdd'', [''behavior driven development''])]"

section \<open>The skill normaliser\<close>

text \<open>
  \<open>re.sub(r'^(using|with|in)\s+', '', s)\<close>: the pattern is anchored at the start, the
  alternatives are tried in the order written, and \<open>\s+\<close> takes the whole run of
  whitespace that follows (at least one character).
\<close>

definition filler_prefixes :: "string list" where
  "filler_prefixes = [''using'', ''with'', ''in'']"

fun sub_prefix :: "string list \<Rightarrow> string \<Rightarrow> string" where
  "sub_prefix [] s = s"
| "sub_prefix (p # ps) s =
     (if prefix p s \<and> takeWhile is_space (drop (length p) s) \<noteq> []
      then dropWhile is_space (drop (length p) s)
      else sub_prefix ps s)"

text \<open>
  \<open>re.sub(r'\s+(programming|development|framework|library|database|tool)$', '', s)\<close>:
  the leftmost position that starts a run of whitespace followed by one of the words and
  the end of the string. \<open>$\<close> also matches just before a final newline, which then stays.
\<close>

definition filler_suffixes :: "string list" where
  "filler_suffixes =
     [''programming'', ''development'', ''framework'', ''library'', ''database'', ''tool'']"

definition at_end :: "string list \<Rightarrow> string \<Rightarrow> bool" where
  "at_end ws r = (r \<in> set ws \<or> (r \<noteq> [] \<and> last r = CHR 0x0A \<and> butlast r \<in> set ws))"

fun sub_suffix :: "string list \<Rightarrow> string \<Rightarrow> string" where
  "sub_suffix ws [] = []"
| "sub_suffix ws (c # cs) =
     (if is_space c \<and> at_end ws (dropWhile is_space cs)
      then (if dropWhile is_space cs \<in> set ws then [] else [CHR 0x0A])
      else c # sub_suffix ws cs)"

definition clean_skill :: "string \<Rightarrow> string" where
  "clean_skill skill = sub_suffix filler_suffixes (sub_prefix filler_prefixes (strip (lower skill)))"

text \<open>The loop over \<open>SKILL_ALIASES.items()\<close>: the first entry that names the string wins.\<close>

fun lookup_alias :: "(string \<times> string list) list \<Rightarrow> string \<Rightarrow> string" where
  "lookup_alias [] s = s"
| "lookup_alias ((canonical, aliases) # rest) s =
     (if s = canonical \<or> s \<in> set aliases then canonical else lookup_alias rest s)"

definition normalize_skill :: "string \<Rightarrow> string" where
  "normalize_skill skill = lookup_alias SKILL_ALIASES (clean_skill skill)"

text \<open>Shapes of a cleaned string: no upper-case letter, no white space at either end.\<close>

definition lowered :: "string \<Rightarrow> bool" where
  "lowered s = (\<forall>c \<in> set s. lower_char c = c)"

definition no_lead :: "string \<Rightarrow> bool" where
  "no_lead s = (s = [] \<or> \<not> is_space (hd s))"

definition no_trail :: "string \<Rightarrow> bool" where
  "no_trail s = (s = [] \<or> \<not> is_space (last s))"

section \<open>Numbers, errors and the score aggregator\<close>

text \<open>The exceptions a step of the scorer can raise; a step that can fail returns \<open>error + 'a\<close>.\<close>

datatype error = TypeError | ZeroDivisionError | ValueError | OverflowError

text \<open>
  \<open>round(x, ndigits)\<close>: to the nearest multiple of \<open>10 ** -ndigits\<close>, a tie going to the even
  one. A \<open>float\<close> is read as its exact value throughout.
\<close>

definition py_round :: "real \<Rightarrow> nat \<Rightarrow> real" where
  "py_round x ndigits =
     (let y = x * 10 ^ ndigits; f = \<lfloor>y\<rfloor>; d = y - of_int f;
          r = (if d < 1 / 2 then f else if 1 / 2 < d then f + 1 else if even f then f else f + 1)
      in of_int r / 10 ^ ndigits)"

text \<open>The if-chain of the scorer on \<open>technical_years\<close>.\<close>

definition experience_duration_score :: "real \<Rightarrow> real" where
  "experience_duration_score technical_years =
     (if technical_years \<ge> 5 then 1.0
      else if technical_years \<ge> 3 then 0.8 + (technical_years - 3) * 0.1
      else if technical_years \<ge> 1 then 0.4 + (technical_years - 1) * 0.2
      else if technical_years \<ge> 0.5 then 0.2 + (technical_years - 0.5) * 0.4
      else technical_years * 0.4)"

text \<open>
  The values the dicts of the scorer hold: a Python \<open>float\<close> (\<open>Num\<close>, read as its exact
  value), a Python \<open>int\<close> (\<open>PyInt\<close>), a list of strings, the two dicts of the matcher, a dict
  of numbers, and \<open>Other\<close> for every other value (a string, \<open>None\<close>, a nested record).
\<close>

datatype pyval =
  Num real
  | PyInt int
  | StrList "string list"
  | EvidenceDict "(string \<times> string list) list"
  | NumDict "(string \<times> real) list"
  | Other

type_synonym pydict = "(string \<times> pyval) list"

text \<open>
  Arithmetic between an \<open>int\<close> and a \<open>float\<close> converts the \<open>int\<close> first. Python rounds it
  to the nearest double and raises \<open>OverflowError\<close> when that is beyond the largest one, that
  is from \<open>2 ** 1024 - 2 ** 970\<close> on in magnitude. (Comparing an \<open>int\<close> with a \<open>float\<close> is
  exact and converts nothing.)
\<close>

definition int_to_float :: "int \<Rightarrow> error + real" where
  "int_to_float i =
     (if 2 ^ 1024 - 2 ^ 970 \<le> \<bar>i\<bar> then Inl OverflowError else Inr (real_of_int i))"

definition weights :: "(string \<times> real) list" where
  "weights =
     [(''skill_match_score'', 0.25),
      (''skill_context_score'', 0.15),
      (''experience_duration_score'', 0.20),
      (''impact_score'', 0.10),
      (''project_score'', 0.10),
      (''education_score'', 0.10),
      (''relevance_score'', 0.10)]"

fun weighted_total :: "(string \<times> real) list \<Rightarrow> pydict \<Rightarrow> real \<Rightarrow> error + real" where
  "weighted_total [] component_scores total_score = Inr total_score"
| "weighted_total ((component, weight) # rest) component_scores total_score =
     (case map_of component_scores component of
        None \<Rightarrow> weighted_total rest component_scores total_score
      | Some (Num v) \<Rightarrow> weighted_total rest component_scores (total_score + weight * v)
      | Some (PyInt i) \<Rightarrow>
          (case int_to_float i of
             Inl e \<Rightarrow> Inl e
           | Inr v \<Rightarrow> weighted_total rest component_scores (total_score + weight * v))
      | Some _ \<Rightarrow> Inl TypeError)"

definition endswith :: "string \<Rightarrow> string \<Rightarrow> bool" where
  "endswith k suf = suffix suf k"

fun exceeds :: "real \<Rightarrow> string \<times> pyval \<Rightarrow> bool" where
  "exceeds bound (k, Num v) = (endswith k ''_score'' \<and> bound < v)"
| "exceeds bound (k, PyInt i) = (endswith k ''_score'' \<and> bound < real_of_int i)"
| "exceeds bound (k, v) = False"

definition component_count :: "pydict \<Rightarrow> nat" where
  "component_count component_scores = length (filter (exceeds 0.3) component_scores)"

definition density_adjust :: "nat \<Rightarrow> real \<Rightarrow> real" where
  "density_adjust n total_score =
     (if n \<ge> 5 then total_score * 1.1 else if n \<le> 2 then total_score * 0.9 else total_score)"

fun per_component :: "(string \<times> real) list \<Rightarrow> pydict \<Rightarrow> error + (string \<times> real) list" where
  "per_component [] component_scores = Inr []"
| "per_component ((k, weight) # rest) component_scores =
     (case map_of component_scores k of
        None \<Rightarrow> per_component rest component_scores
      | Some (Num v) \<Rightarrow>
          (case per_component rest component_scores of
             Inl e \<Rightarrow> Inl e
           | Inr ps \<Rightarrow> Inr ((k, py_round (v * 10.0) 1) # ps))
      | Some (PyInt i) \<Rightarrow>
          (case int_to_float i of
             Inl e \<Rightarrow> Inl e
           | Inr v \<Rightarrow>
               (case per_component rest component_scores of
                  Inl e \<Rightarrow> Inl e
                | Inr ps \<Rightarrow> Inr ((k, py_round (v * 10.0) 1) # ps)))
      | Some _ \<Rightarrow> Inl TypeError)"

record aggregated =
  score_0_100 :: real
  score_0_10 :: real
  per_component_0_10 :: "(string \<times> real) list"
  weights_used :: "(string \<times> real) list"

definition aggregate_enhanced_scores :: "pydict \<Rightarrow> error + aggregated" where
  "aggregate_enhanced_scores component_scores =
     (case weighted_total weights component_scores 0.0 of
        Inl e \<Rightarrow> Inl e
      | Inr raw_total \<Rightarrow>
          (let total_score = density_adjust (component_count component_scores) raw_total;
               final_score_0_100 = min 100.0 (total_score * 100);
               final_score_0_10 = py_round (final_score_0_100 / 10.0) 2
           in case per_component weights component_scores of
                Inl e \<Rightarrow> Inl e
              | Inr ps \<Rightarrow>
                  Inr \<lparr>score_0_100 = py_round final_score_0_100 1,
                       score_0_10 = final_score_0_10,
                       per_component_0_10 = ps,
                       weights_used = weights\<rparr>))"

section \<open>Sequence similarity\<close>

text \<open>
  \<open>fuzzy_match_score\<close> calls \<open>difflib.SequenceMatcher(None, a, b).ratio()\<close> of the Python
  standard library; the definitions below follow that class. With \<open>isjunk = None\<close> the junk
  set is empty, so the two loops of \<open>find_longest_match\<close> that extend a match over junk
  never run and are left out.

  \<open>b2j\<close> lists, for an element, the indices where it occurs in \<open>b\<close>, in increasing order;
  for a \<open>b\<close> of 200 elements or more the elements that occur more than
  \<open>len(b) // 100 + 1\<close> times are "popular" and lose their entry.
\<close>

definition popular :: "string \<Rightarrow> char \<Rightarrow> bool" where
  "popular b elt = (200 \<le> length b \<and> length b div 100 + 1 < count_list b elt)"

definition b2j :: "string \<Rightarrow> char \<Rightarrow> nat list" where
  "b2j b elt = (if popular b elt then [] else filter (\<lambda>j. b ! j = elt) [0..<length b])"

type_synonym match = "nat \<times> nat \<times> nat"

text \<open>
  The inner loop of \<open>find_longest_match\<close> for one \<open>i\<close>: \<open>j2len\<close> holds, for the previous
  row, the length of the run of equal elements that ends at each \<open>j\<close> (0 where the dict has
  no entry, as \<open>j2len.get(j-1, 0)\<close> reads it).
\<close>

fun scan_row ::
  "nat \<Rightarrow> nat \<Rightarrow> nat \<Rightarrow> (nat \<Rightarrow> nat) \<Rightarrow> nat list \<Rightarrow> (nat \<Rightarrow> nat) \<times> match \<Rightarrow> (nat \<Rightarrow> nat) \<times> match"
where
  "scan_row i blo bhi j2len [] st = st"
| "scan_row i blo bhi j2len (j # js) (newj2len, (besti, bestj, bestsize)) =
     (if j < blo then scan_row i blo bhi j2len js (newj2len, (besti, bestj, bestsize))
      else if bhi \<le> j then (newj2len, (besti, bestj, bestsize))
      else (let k = (if j = 0 then 0 else j2len (j - 1)) + 1
            in scan_row i blo bhi j2len js
                 (newj2len(j := k),
                  if bestsize < k then (i + 1 - k, j + 1 - k, k)
                  else (besti, bestj, bestsize))))"

fun scan_rows ::
  "string \<Rightarrow> string \<Rightarrow> nat \<Rightarrow> nat \<Rightarrow> nat list \<Rightarrow> (nat \<Rightarrow> nat) \<times> match \<Rightarrow> match"
where
  "scan_rows a b blo bhi [] (j2len, best) = best"
| "scan_rows a b blo bhi (i # rows) (j2len, best) =
     scan_rows a b blo bhi rows (scan_row i blo bhi j2len (b2j b (a ! i)) (\<lambda>_. 0, best))"

function extend_left :: "string \<Rightarrow> string \<Rightarrow> nat \<Rightarrow> nat \<Rightarrow> match \<Rightarrow> match" where
  "extend_left a b alo blo (besti, bestj, bestsize) =
     (if alo < besti \<and> blo < bestj \<and> a ! (besti - 1) = b ! (bestj - 1)
      then extend_left a b alo blo (besti - 1, bestj - 1, bestsize + 1)
      else (besti, bestj, bestsize))"
  by pat_completeness auto
termination
  by (relation "measure (\<lambda>(a, b, alo, blo, besti, bestj, bestsize). besti)") auto

function extend_right :: "string \<Rightarrow> string \<Rightarrow> nat \<Rightarrow> nat \<Rightarrow> match \<Rightarrow> match" where
  "extend_right a b ahi bhi (besti, bestj, bestsize) =
     (if besti + bestsize < ahi \<and> bestj + bestsize < bhi \<and>
         a ! (besti + bestsize) = b ! (bestj + bestsize)
      then extend_right a b ahi bhi (besti, bestj, bestsize + 1)
      else (besti, bestj, bestsize))"
  by pat_completeness auto
termination
  by (relation "measure (\<lambda>(a, b, ahi, bhi, besti, bestj, bestsize). ahi - (besti + bestsize))")
    auto

declare extend_left.simps [simp del] extend_right.simps [simp del]

definition find_longest_match :: "string \<Rightarrow> string \<Rightarrow> nat \<Rightarrow> nat \<Rightarrow> nat \<Rightarrow> nat \<Rightarrow> match" where
  "find_longest_match a b alo ahi blo bhi =
     extend_right a b ahi bhi
       (extend_left a b alo blo
          (scan_rows a b blo bhi [alo..<ahi] (\<lambda>_. 0, (alo, blo, 0))))"

text \<open>
  The work list of \<open>get_matching_blocks\<close>: Python pops the last entry of \<open>queue\<close>, which is
  the head of the list here, so the right-hand region is pushed on top of the left-hand one.
\<close>

function matching_blocks ::
  "string \<Rightarrow> string \<Rightarrow> (nat \<times> nat \<times> nat \<times> nat) list \<Rightarrow> match list \<Rightarrow> match list"
where
  "matching_blocks a b [] acc = acc"
| "matching_blocks a b ((alo, ahi, blo, bhi) # queue) acc =
     (case find_longest_match a b alo ahi blo bhi of
        (i, j, k) \<Rightarrow>
          if k = 0 then matching_blocks a b queue acc
          else matching_blocks a b
                 ((if i + k < ahi \<and> j + k < bhi then [(i + k, ahi, j + k, bhi)] else []) @
                  (if alo < i \<and> blo < j then [(alo, i, blo, j)] else []) @ queue)
                 (acc @ [(i, j, k)]))"
  by pat_completeness auto

text \<open>Adjacent blocks are merged after sorting; a final block of size 0 closes the list.\<close>

fun collapse :: "match \<Rightarrow> match list \<Rightarrow> match list" where
  "collapse (i1, j1, k1) [] = (if k1 \<noteq> 0 then [(i1, j1, k1)] else [])"
| "collapse (i1, j1, k1) ((i2, j2, k2) # rest) =
     (if i1 + k1 = i2 \<and> j1 + k1 = j2 then collapse (i1, j1, k1 + k2) rest
      else (if k1 \<noteq> 0 then [(i1, j1, k1)] else []) @ collapse (i2, j2, k2) rest)"

definition get_matching_blocks :: "string \<Rightarrow> string \<Rightarrow> match list" where
  "get_matching_blocks a b =
     collapse (0, 0, 0) (sort (matching_blocks a b [(0, length a, 0, length b)] [])) @
     [(length a, length b, 0)]"

definition calculate_ratio :: "nat \<Rightarrow> nat \<Rightarrow> real" where
  "calculate_ratio matches len = (if len \<noteq> 0 then 2.0 * real matches / real len else 1.0)"

definition ratio :: "string \<Rightarrow> string \<Rightarrow> real" where
  "ratio a b =
     calculate_ratio (sum_list (map (\<lambda>(i, j, k). k) (get_matching_blocks a b)))
       (length a + length b)"

definition fuzzy_match_score :: "string \<Rightarrow> string \<Rightarrow> real" where
  "fuzzy_match_score text1 text2 = ratio (lower text1) (lower text2)"

text \<open>
  What \<open>find_longest_match\<close> keeps true of its best match while it runs: either nothing
  has been found yet, or the match lies inside the region it was asked to search.
\<close>

definition good_match :: "nat \<Rightarrow> nat \<Rightarrow> nat \<Rightarrow> nat \<Rightarrow> match \<Rightarrow> bool" where
  "good_match alo ahi blo bhi m =
     (case m of (i, j, k) \<Rightarrow>
        (k = 0 \<and> i = alo \<and> j = blo) \<or>
        (0 < k \<and> alo \<le> i \<and> blo \<le> j \<and> i + k \<le> ahi \<and> j + k \<le> bhi))"

definition good_row :: "nat \<Rightarrow> nat \<Rightarrow> (nat \<Rightarrow> nat) \<Rightarrow> bool" where
  "good_row m blo j2len = (\<forall>j. j2len j \<le> m \<and> j2len j \<le> j + 1 - blo)"

text \<open>
  For the proof that a string is wholly similar to itself: the length of the run of elements
  that are not popular and end at index \<open>x\<close>, and the value the inner loop stores for \<open>j\<close>.
\<close>

definition run_before :: "(nat \<Rightarrow> nat) \<Rightarrow> nat \<Rightarrow> nat" where
  "run_before f x = (if x = 0 then 0 else f (x - 1))"

fun plain_run :: "string \<Rightarrow> nat \<Rightarrow> nat" where
  "plain_run a 0 = (if popular a (a ! 0) then 0 else 1)"
| "plain_run a (Suc x) = (if popular a (a ! Suc x) then 0 else plain_run a x + 1)"

definition row_ok :: "string \<Rightarrow> nat \<Rightarrow> (nat \<Rightarrow> nat) \<Rightarrow> bool" where
  "row_ok a r j2len =
     ((\<forall>j. j2len j \<le> plain_run a j) \<and> (\<forall>j. j2len j \<le> run_before (plain_run a) r) \<and>
      (0 < r \<longrightarrow> j2len (r - 1) = plain_run a (r - 1)))"

definition best_ok :: "string \<Rightarrow> nat \<Rightarrow> match \<Rightarrow> bool" where
  "best_ok a r m = (case m of (i, j, k) \<Rightarrow> i = j \<and> (\<forall>x < r. plain_run a x \<le> k))"

section \<open>The skill matcher\<close>

text \<open>
  \<open>create_skill_variants\<close> builds a Python set. The model keeps its elements in a list
  without repetitions, in the order in which they are added; Python does not fix the order
  in which a set is iterated, and nothing below depends on it.
\<close>

definition set_add :: "'a \<Rightarrow> 'a list \<Rightarrow> 'a list" where
  "set_add x xs = (if x \<in> set xs then xs else xs @ [x])"

definition replace_space :: "string \<Rightarrow> string \<Rightarrow> string" where
  "replace_space new s = concat (map (\<lambda>c. if c = CHR '' '' then new else [c]) s)"

definition create_skill_variants :: "string \<Rightarrow> string list" where
  "create_skill_variants skill =
     (let normalized = normalize_skill skill;
          variants = fold set_add [normalized, strip (lower skill)] [];
          variants = (case map_of SKILL_ALIASES normalized of
                        Some aliases \<Rightarrow> fold set_add aliases variants
                      | None \<Rightarrow> variants)
      in if CHR '' '' \<in> set normalized
         then fold set_add
                [replace_space [] normalized, replace_space ''.'' normalized,
                 replace_space ''-'' normalized] variants
         else variants)"

text \<open>
  \<open>re.finditer(re.escape(variant), text)\<close>: the occurrences of a literal string from left to
  right, none overlapping the one before; the empty string occurs at every position.
\<close>

function find_all :: "string \<Rightarrow> string \<Rightarrow> nat \<Rightarrow> (nat \<times> nat) list" where
  "find_all pat txt pos =
     (if length txt < pos then []
      else if prefix pat (drop pos txt)
           then (pos, pos + length pat) #
                find_all pat txt (if pat = [] then pos + 1 else pos + length pat)
           else find_all pat txt (pos + 1))"
  by pat_completeness auto
termination
  apply (relation "measure (\<lambda>(pat, txt, pos). length txt + 1 - pos)")
    apply auto
  subgoal for pat txt pos by (cases pat) auto
  done

declare find_all.simps [simp del]

text \<open>The slice \<open>resume_text[start:end].strip()\<close> around one occurrence.\<close>

definition snippet :: "string \<Rightarrow> nat \<times> nat \<Rightarrow> string" where
  "snippet resume_text m =
     (case m of (match_start, match_end) \<Rightarrow>
        let start = (if 30 \<le> match_start then match_start - 30 else 0);
            end = min (length resume_text) (match_end + 30)
        in strip (take (end - start) (drop start resume_text)))"

fun substring_pass ::
  "string \<Rightarrow> string \<Rightarrow> string list \<Rightarrow> real \<times> string list \<Rightarrow> real \<times> string list"
where
  "substring_pass resume_text resume_text_lower [] st = st"
| "substring_pass resume_text resume_text_lower (variant # variants)
     (best_match_score, evidence_snippets) =
     substring_pass resume_text resume_text_lower variants
       (if contains resume_text_lower variant
        then (max best_match_score 1.0,
              evidence_snippets @
                map (snippet resume_text) (find_all variant resume_text_lower 0))
        else (best_match_score, evidence_snippets))"

definition cross_step :: "string \<Rightarrow> string \<Rightarrow> real \<Rightarrow> real" where
  "cross_step jd_variant resume_variant best_match_score =
     (if jd_variant = resume_variant then max best_match_score 1.0
      else let fuzzy_score = fuzzy_match_score jd_variant resume_variant
           in if fuzzy_score \<ge> 0.85 then max best_match_score fuzzy_score
              else best_match_score)"

definition cross_pass :: "string list \<Rightarrow> string list \<Rightarrow> real \<Rightarrow> real" where
  "cross_pass jd_skill_variants resume_skills best_match_score =
     fold (\<lambda>resume_skill.
             fold (\<lambda>jd_variant.
                     fold (\<lambda>resume_variant. cross_step jd_variant resume_variant)
                       (create_skill_variants resume_skill))
               jd_skill_variants)
       resume_skills best_match_score"

text \<open>\<open>str.split()\<close>: the maximal runs of characters that are not white space.\<close>

fun split_from :: "string \<Rightarrow> string \<Rightarrow> string list" where
  "split_from word [] = (if word = [] then [] else [word])"
| "split_from word (c # cs) =
     (if is_space c then (if word = [] then split_from [] cs else word # split_from [] cs)
      else split_from (word @ [c]) cs)"

definition split :: "string \<Rightarrow> string list" where
  "split s = split_from [] s"

text \<open>True division: a zero divisor raises \<open>ZeroDivisionError\<close>.\<close>

definition py_div :: "real \<Rightarrow> nat \<Rightarrow> error + real" where
  "py_div x n = (if n = 0 then Inl ZeroDivisionError else Inr (x / real n))"

definition partial_pass :: "string \<Rightarrow> string \<Rightarrow> real \<Rightarrow> error + real" where
  "partial_pass jd_skill resume_text_lower best_match_score =
     (if best_match_score < 0.5
      then (let jd_words = remdups (split (lower jd_skill));
                resume_words = remdups (split resume_text_lower)
            in if length jd_words > 1
               then (let word_matches = filter (\<lambda>w. w \<in> set resume_words) jd_words
                     in if real (length word_matches) \<ge> real (length jd_words) * 0.6
                        then (case py_div (real (length word_matches)) (length jd_words) of
                                Inl e \<Rightarrow> Inl e
                              | Inr q \<Rightarrow> Inr (max best_match_score (q * 0.7)))
                        else Inr best_match_score)
               else Inr best_match_score)
      else Inr best_match_score)"

text \<open>One turn of the loop over \<open>jd_skills\<close>, up to the test against the threshold.\<close>

definition best_match :: "string \<Rightarrow> string \<Rightarrow> string list \<Rightarrow> error + real \<times> string list" where
  "best_match jd_skill resume_text resume_skills =
     (let resume_text_lower = lower resume_text;
          jd_skill_variants = create_skill_variants jd_skill;
          st = substring_pass resume_text resume_text_lower jd_skill_variants (0.0, [])
      in case partial_pass jd_skill resume_text_lower
                (cross_pass jd_skill_variants resume_skills (fst st)) of
           Inl e \<Rightarrow> Inl e
         | Inr best_match_score \<Rightarrow> Inr (best_match_score, snd st))"

text \<open>\<open>d[k] = v\<close> on a dict kept as an association list in insertion order.\<close>

definition dict_set :: "'k \<Rightarrow> 'v \<Rightarrow> ('k \<times> 'v) list \<Rightarrow> ('k \<times> 'v) list" where
  "dict_set k v d =
     (if k \<in> fst ` set d then map (\<lambda>(k', v'). if k' = k then (k', v) else (k', v')) d
      else d @ [(k, v)])"

type_synonym match_state =
  "string list \<times> (string \<times> string list) list \<times> (string \<times> real) list"

fun match_loop ::
  "string \<Rightarrow> string list \<Rightarrow> string list \<Rightarrow> match_state \<Rightarrow> error + match_state"
where
  "match_loop resume_text resume_skills [] st = Inr st"
| "match_loop resume_text resume_skills (jd_skill # rest)
     (matched_skills, skill_evidence, confidence_scores) =
     (case best_match jd_skill resume_text resume_skills of
        Inl e \<Rightarrow> Inl e
      | Inr (best_match_score, evidence_snippets) \<Rightarrow>
          match_loop resume_text resume_skills rest
            (if best_match_score \<ge> 0.5
             then (matched_skills @ [jd_skill],
                   dict_set jd_skill (take 3 evidence_snippets) skill_evidence,
                   dict_set jd_skill best_match_score confidence_scores)
             else (matched_skills, skill_evidence, confidence_scores)))"

record skill_analysis =
  matched_skills :: "string list"
  skill_evidence :: "(string \<times> string list) list"
  confidence_scores :: "(string \<times> real) list"
  total_jd_skills :: nat
  match_rate :: real

definition find_skill_matches ::
  "string list \<Rightarrow> string \<Rightarrow> string list \<Rightarrow> error + skill_analysis"
where
  "find_skill_matches jd_skills resume_text resume_skills =
     (case match_loop resume_text resume_skills jd_skills ([], [], []) of
        Inl e \<Rightarrow> Inl e
      | Inr (matched, evidence, confidence) \<Rightarrow>
          (case py_div (real (length matched)) (max 1 (length jd_skills)) of
             Inl e \<Rightarrow> Inl e
           | Inr rate \<Rightarrow>
               Inr \<lparr>matched_skills = matched, skill_evidence = evidence,
                    confidence_scores = confidence, total_jd_skills = length jd_skills,
                    match_rate = rate\<rparr>))"

text \<open>
  Two abbreviations for the statements about the matcher: a skill passes the threshold, and
  every listed skill has an evidence entry of at most three snippets.
\<close>

definition matched :: "string \<Rightarrow> string list \<Rightarrow> string \<Rightarrow> bool" where
  "matched resume_text resume_skills jd_skill =
     (\<exists>score ev. best_match jd_skill resume_text resume_skills = Inr (score, ev) \<and> 0.5 \<le> score)"

definition bounded_evidence :: "string list \<Rightarrow> (string \<times> string list) list \<Rightarrow> bool" where
  "bounded_evidence ms evidence =
     (\<forall>s \<in> set ms. \<exists>ev. map_of evidence s = Some ev \<and> length ev \<le> 3)"

section \<open>Regular expressions, as far as the scorer uses them\<close>

text \<open>
  The scorer hands nine fixed patterns to Python's \<open>re\<close> module with \<open>re.IGNORECASE\<close>. The
  model is a backtracking matcher for the constructs these patterns use: a literal (compared
  without regard to case), a greedy repetition \<open>\d+\<close>, \<open>\s*\<close>, \<open>\s+\<close> of a character class
  with its least count, the lazy \<open>.*?\<close>, the word boundary \<open>\b\<close> and an alternation
  \<open>(?:a|b|c)\<close>, whose alternatives are tried in the order written; \<open>(?:x)?\<close> and \<open>[kmb]?\<close>
  are alternations that end with the empty alternative.
\<close>

datatype char_class = Digit | Space | AnyChar

fun in_class :: "char_class \<Rightarrow> char \<Rightarrow> bool" where
  "in_class Digit c = (let n = (of_char c :: nat) in 48 \<le> n \<and> n \<le> 57)"
| "in_class Space c = is_space c"
| "in_class AnyChar c = (c \<noteq> CHR 0x0A)"

datatype atom =
  Lit string
  | Rep char_class nat
  | Lazy char_class
  | WordB
  | Alt "atom list list"

definition is_word :: "char \<Rightarrow> bool" where
  "is_word c =
     (let n = (of_char c :: nat)
      in (48 \<le> n \<and> n \<le> 57) \<or> (65 \<le> n \<and> n \<le> 90) \<or> n = 95 \<or> (97 \<le> n \<and> n \<le> 122))"

definition word_boundary :: "string \<Rightarrow> nat \<Rightarrow> bool" where
  "word_boundary t p =
     ((0 < p \<and> p \<le> length t \<and> is_word (t ! (p - 1))) \<noteq> (p < length t \<and> is_word (t ! p)))"

definition run :: "char_class \<Rightarrow> string \<Rightarrow> nat \<Rightarrow> nat" where
  "run cls t p = length (takeWhile (in_class cls) (drop p t))"

fun first_some :: "('a \<Rightarrow> 'b option) \<Rightarrow> 'a list \<Rightarrow> 'b option" where
  "first_some f [] = None"
| "first_some f (x # xs) = (case f x of Some y \<Rightarrow> Some y | None \<Rightarrow> first_some f xs)"

lemma first_some_cong [fundef_cong]:
  "xs = ys \<Longrightarrow> (\<And>x. x \<in> set ys \<Longrightarrow> f x = g x) \<Longrightarrow> first_some f xs = first_some g ys"
  by (induction ys arbitrary: xs) (auto split: option.splits)

text \<open>
  \<open>rx_match re t p\<close> is the end of the match of \<open>re\<close> that starts at position \<open>p\<close> of \<open>t\<close>,
  the first one in backtracking order.
\<close>

function rx_match :: "atom list \<Rightarrow> string \<Rightarrow> nat \<Rightarrow> nat option" where
  "rx_match [] t p = Some p"
| "rx_match (Lit w # r) t p =
     (if lower (take (length w) (drop p t)) = lower w then rx_match r t (p + length w)
      else None)"
| "rx_match (Rep cls least # r) t p =
     first_some (\<lambda>n. rx_match r t (p + n)) (rev [least..<Suc (run cls t p)])"
| "rx_match (Lazy cls # r) t p =
     first_some (\<lambda>n. rx_match r t (p + n)) [0..<Suc (run cls t p)]"
| "rx_match (WordB # r) t p = (if word_boundary t p then rx_match r t p else None)"
| "rx_match (Alt alts # r) t p = first_some (\<lambda>alt. rx_match (alt @ r) t p) alts"
  by pat_completeness auto
termination
  apply (relation "measure (\<lambda>(re, t, p). size_list size re)")
        apply simp_all
  subgoal for alts alt
    using size_list_estimation' [of alt alts "size_list size alt" "size_list size"] by simp
  done

text \<open>
  \<open>re.findall\<close> counts matches from left to right, each search starting where the last match
  ended (none of the patterns can match the empty string); \<open>re.search\<close> asks for one.
\<close>

function count_from :: "atom list \<Rightarrow> string \<Rightarrow> nat \<Rightarrow> nat" where
  "count_from re t p =
     (if length t < p then 0
      else case rx_match re t p of
             Some e \<Rightarrow> 1 + count_from re t (max (p + 1) e)
           | None \<Rightarrow> count_from re t (p + 1))"
  by pat_completeness auto
termination
  by (relation "measure (\<lambda>(re, t, p). length t + 1 - p)") auto

declare count_from.simps [simp del]

definition findall_count :: "atom list \<Rightarrow> string \<Rightarrow> nat" where
  "findall_count re t = count_from re t 0"

definition search :: "atom list \<Rightarrow> string \<Rightarrow> bool" where
  "search re t = list_ex (\<lambda>p. rx_match re t p \<noteq> None) [0..<Suc (length t)]"

definition one_of :: "string list \<Rightarrow> atom" where
  "one_of ws = Alt (map (\<lambda>w. [Lit w]) ws)"

definition impact_indicators :: "atom list list" where
  "impact_indicators =
     [[Rep Digit 1, Lit ''%'', Rep Space 0,
       one_of [''increase'', ''improvement'', ''reduction'', ''growth'', ''faster'', ''better'']],
      [Lit ''$'', Rep Digit 1, Alt [[Lit ''k''], [Lit ''m''], [Lit ''b''], []], Rep Space 0,
       one_of [''saved'', ''revenue'', ''budget'', ''cost'']],
      [Rep Digit 1, Rep Space 0,
       one_of [''users'', ''customers'', ''clients'', ''projects'', ''applications'']],
      [one_of [''increased'', ''improved'', ''reduced'', ''optimized'', ''enhanced''],
       Lazy AnyChar, Rep Digit 1],
      [Rep Digit 1, Lit ''x'', Rep Space 0, one_of [''faster'', ''improvement'', ''increase'']],
      [one_of [''led'', ''managed''], Rep Space 1, Alt [[Lit ''team of'', Rep Space 1], []],
       Rep Digit 1]]"

definition project_indicators :: "atom list list" where
  "project_indicators =
     [[WordB,
       Alt [[Lit ''project''], [Lit ''projects''], [Lit ''portfolio''], [Lit ''github''],
            [Lit ''personal'', Rep Space 1, Lit ''work'']],
       WordB],
      [WordB, one_of [''built'', ''created'', ''developed''], Lazy AnyChar,
       one_of [''application'', ''app'', ''website'', ''system'', ''tool''], WordB],
      [WordB,
       Alt [[Lit ''side'', Rep Space 1, Lit ''project''],
            [Lit ''open'', Rep Space 1, Lit ''source''], [Lit ''hackathon''],
            [Lit ''competition'']],
       WordB]]"

section \<open>The component scorer\<close>

text \<open>\<open>d.get(k, dflt)\<close>: the value under \<open>k\<close>, or \<open>dflt\<close> when the key is missing.\<close>

definition dict_get :: "pydict \<Rightarrow> string \<Rightarrow> pyval \<Rightarrow> pyval" where
  "dict_get d k dflt = (case map_of d k of Some v \<Rightarrow> v | None \<Rightarrow> dflt)"

definition skill_match_score :: "skill_analysis \<Rightarrow> string list \<Rightarrow> error + real" where
  "skill_match_score sa jd_skills =
     (let base_match_rate = match_rate sa
      in case (if confidence_scores sa \<noteq> []
               then (let total_weight = sum_list (map snd (confidence_scores sa))
                     in if total_weight > 0 then py_div total_weight (length jd_skills)
                        else Inr 0)
               else Inr 0) of
           Inl e \<Rightarrow> Inl e
         | Inr confidence_weighted_score \<Rightarrow>
             Inr (min 1.0 (base_match_rate * 0.7 + confidence_weighted_score * 0.3)))"

definition experience_keywords :: "string list" where
  "experience_keywords =
     [''experience'', ''worked'', ''developed'', ''built'', ''created'', ''managed'', ''led'',
      ''implemented'']"

definition has_context :: "string list \<Rightarrow> bool" where
  "has_context evidence =
     list_ex (\<lambda>snippet. list_ex (\<lambda>keyword. contains (lower snippet) keyword) experience_keywords)
       evidence"

definition skill_context_score :: "skill_analysis \<Rightarrow> error + real" where
  "skill_context_score sa =
     (let total_matched_skills = length (matched_skills sa);
          skills_with_context =
            length (filter (\<lambda>skill. has_context (case map_of (skill_evidence sa) skill of
                                                    Some evidence \<Rightarrow> evidence
                                                  | None \<Rightarrow> []))
                      (matched_skills sa))
      in if total_matched_skills > 0
         then py_div (real skills_with_context) (max 1 total_matched_skills)
         else Inr 0)"

text \<open>
  The comparisons \<open>technical_years >= 5\<close> raise \<open>TypeError\<close> on a value that is not a number.
  On an \<open>int\<close> they are exact, and so is the subtraction in \<open>technical_years - 3\<close> and
  \<open>technical_years - 1\<close>, whose small result is then multiplied by a \<open>float\<close>. Only the last
  branch, reached by an \<open>int\<close> below 1, multiplies \<open>technical_years\<close> itself by a \<open>float\<close>
  and so converts it.
\<close>

definition experience_component :: "pyval \<Rightarrow> error + real" where
  "experience_component technical_years =
     (case technical_years of
        Num t \<Rightarrow> Inr (experience_duration_score t)
      | PyInt i \<Rightarrow>
          (if 1 \<le> i then Inr (experience_duration_score (real_of_int i))
           else (case int_to_float i of
                   Inl e \<Rightarrow> Inl e
                 | Inr t \<Rightarrow> Inr (experience_duration_score t)))
      | _ \<Rightarrow> Inl TypeError)"

definition impact_count :: "string \<Rightarrow> nat" where
  "impact_count resume_text =
     sum_list (map (\<lambda>pattern. findall_count pattern resume_text) impact_indicators)"

definition action_verbs :: "string list" where
  "action_verbs =
     [''developed'', ''built'', ''created'', ''designed'', ''implemented'', ''optimized'',
      ''improved'', ''led'', ''managed'']"

definition action_count :: "string \<Rightarrow> nat" where
  "action_count resume_text =
     length (filter (\<lambda>verb. contains (lower resume_text) verb) action_verbs)"

definition impact_score :: "string \<Rightarrow> real" where
  "impact_score resume_text =
     (if impact_count resume_text \<ge> 5 then 1.0
      else if impact_count resume_text \<ge> 3 then 0.8
      else if impact_count resume_text \<ge> 1 then 0.6
      else min 0.4 (real (action_count resume_text) * 0.05))"

definition project_score :: "string \<Rightarrow> real" where
  "project_score resume_text =
     min 1.0
       (fold (\<lambda>pattern score. if search pattern resume_text then score + 0.3 else score)
          project_indicators 0)"

definition education_indicators :: "(string \<times> real) list" where
  "education_indicators =
     [(''phd'', 1.0), (''ph.d'', 1.0), (''doctorate'', 1.0), (''master'', 0.9), (''m.s'', 0.9),
      (''msc'', 0.9), (''mba'', 0.8), (''bachelor'', 0.7), (''b.s'', 0.7), (''bsc'', 0.7),
      (''associate'', 0.5), (''certification'', 0.4), (''bootcamp'', 0.4), (''diploma'', 0.3)]"

fun education_scan :: "(string \<times> real) list \<Rightarrow> string \<Rightarrow> real \<Rightarrow> real" where
  "education_scan [] resume_lower education_score = education_score"
| "education_scan ((edu_term, score) # rest) resume_lower education_score =
     (if contains resume_lower edu_term then max education_score score
      else education_scan rest resume_lower education_score)"

definition education_score :: "string \<Rightarrow> real" where
  "education_score resume_text = education_scan education_indicators (lower resume_text) 0.3"

definition job_types :: "(string \<times> string list) list" where
  "job_types =
     [(''frontend'', [''frontend'', ''front-end'', ''react'', ''vue'', ''angular'', ''javascript'',
                      ''html'', ''css'']),
      (''backend'', [''backend'', ''back-end'', ''api'', ''server'', ''database'', ''python'',
                     ''java'', ''node'']),
      (''fullstack'', [''fullstack'', ''full-stack'', ''full stack'']),
      (''devops'', [''devops'', ''infrastructure'', ''aws'', ''docker'', ''kubernetes'', ''ci/cd'']),
      (''data'', [''data science'', ''machine learning'', ''analytics'', ''python'', ''sql'',
                  ''statistics'']),
      (''mobile'', [''mobile'', ''ios'', ''android'', ''react native'', ''flutter'', ''swift'',
                    ''kotlin''])]"

definition count_in :: "string list \<Rightarrow> string \<Rightarrow> nat" where
  "count_in keywords txt = length (filter (\<lambda>keyword. contains txt keyword) keywords)"

fun job_type_matches ::
  "(string \<times> string list) list \<Rightarrow> string \<Rightarrow> string \<Rightarrow> error + (string \<times> real \<times> nat) list"
where
  "job_type_matches [] job_desc_lower resume_lower = Inr []"
| "job_type_matches ((job_type, keywords) # rest) job_desc_lower resume_lower =
     (let job_match_count = count_in keywords job_desc_lower;
          resume_match_count = count_in keywords resume_lower
      in if job_match_count > 0
         then (case py_div (real resume_match_count) (length keywords) of
                 Inl e \<Rightarrow> Inl e
               | Inr share \<Rightarrow>
                   (case job_type_matches rest job_desc_lower resume_lower of
                      Inl e \<Rightarrow> Inl e
                    | Inr ms \<Rightarrow> Inr ((job_type, share, job_match_count) # ms)))
         else job_type_matches rest job_desc_lower resume_lower)"

text \<open>\<open>max\<close> of a sequence raises \<open>ValueError\<close> when the sequence is empty.\<close>

fun py_max :: "real list \<Rightarrow> error + real" where
  "py_max [] = Inl ValueError"
| "py_max (x # xs) = Inr (fold max xs x)"

definition relevance_score :: "string \<Rightarrow> string \<Rightarrow> error + real" where
  "relevance_score job_desc resume_text =
     (case job_type_matches job_types (lower job_desc) (lower resume_text) of
        Inl e \<Rightarrow> Inl e
      | Inr ms \<Rightarrow>
          if ms \<noteq> []
          then (case py_max (map (\<lambda>(job_type, share, job_match_count). share) ms) of
                  Inl e \<Rightarrow> Inl e
                | Inr best \<Rightarrow> Inr (min 1.0 (best + 0.3)))
          else Inr 0.5)"

definition match_statistics :: "skill_analysis \<Rightarrow> string \<Rightarrow> error + pyval" where
  "match_statistics sa resume_text =
     (case py_div (sum_list (map snd (confidence_scores sa)))
             (max 1 (length (confidence_scores sa))) of
        Inl e \<Rightarrow> Inl e
      | Inr average_confidence \<Rightarrow>
          Inr (NumDict
                 [(''skills_matched'', real (length (matched_skills sa))),
                  (''skills_with_evidence'',
                   real (length (filter (\<lambda>(k, s). s \<noteq> []) (skill_evidence sa)))),
                  (''average_confidence'', average_confidence),
                  (''impact_indicators_found'', real (impact_count resume_text))]))"

definition compute_enhanced_component_scores ::
  "string \<Rightarrow> string \<Rightarrow> string list \<Rightarrow> string list \<Rightarrow> pydict \<Rightarrow> error + pydict"
where
  "compute_enhanced_component_scores job_desc resume_text jd_skills resume_skills experience_data =
     (case find_skill_matches jd_skills resume_text resume_skills of
        Inl e \<Rightarrow> Inl e
      | Inr sa \<Rightarrow>
     (case skill_match_score sa jd_skills of
        Inl e \<Rightarrow> Inl e
      | Inr skill_match \<Rightarrow>
     (case skill_context_score sa of
        Inl e \<Rightarrow> Inl e
      | Inr skill_context \<Rightarrow>
     (let total_years = dict_get experience_data ''total_years_experience'' (PyInt 0);
          technical_years = dict_get experience_data ''technical_years_experience'' (PyInt 0)
      in case experience_component technical_years of
        Inl e \<Rightarrow> Inl e
      | Inr experience_duration \<Rightarrow>
     (case relevance_score job_desc resume_text of
        Inl e \<Rightarrow> Inl e
      | Inr relevance \<Rightarrow>
     (case match_statistics sa resume_text of
        Inl e \<Rightarrow> Inl e
      | Inr statistics \<Rightarrow>
          Inr [(''skill_match_score'', Num skill_match),
               (''skill_context_score'', Num skill_context),
               (''experience_duration_score'', Num experience_duration),
               (''impact_score'', Num (impact_score resume_text)),
               (''project_score'', Num (project_score resume_text)),
               (''education_score'', Num (education_score resume_text)),
               (''relevance_score'', Num relevance),
               (''matched_skills'', StrList (matched_skills sa)),
               (''skill_evidence'', EvidenceDict (skill_evidence sa)),
               (''confidence_scores'', NumDict (confidence_scores sa)),
               (''years_experience_estimate'', total_years),
               (''technical_years_estimate'', technical_years),
               (''total_jd_skills'', PyInt (int (length jd_skills))),
               (''match_statistics'', statistics)]))))))"

text \<open>The two calls of \<^verbatim>\<open>service.py\<close>, one after the other.\<close>

definition score_resume ::
  "string \<Rightarrow> string \<Rightarrow> string list \<Rightarrow> string list \<Rightarrow> pydict \<Rightarrow> error + aggregated"
where
  "score_resume job_desc resume_text jd_skills resume_skills experience_data =
     (case compute_enhanced_component_scores job_desc resume_text jd_skills resume_skills
             experience_data of
        Inl e \<Rightarrow> Inl e
      | Inr component_scores \<Rightarrow> aggregate_enhanced_scores component_scores)"

text \<open>
  The count that Claim C6 names, written from its words: the occurrences of the action verbs
  in the lower-cased text, every position counted.
\<close>

definition occurrences :: "string \<Rightarrow> string \<Rightarrow> nat" where
  "occurrences sub txt = length (filter (\<lambda>i. prefix sub (drop i txt)) [0..<length txt])"

definition verb_occurrences :: "string \<Rightarrow> nat" where
  "verb_occurrences resume_text =
     sum_list (map (\<lambda>verb. occurrences verb (lower resume_text)) action_verbs)"

text \<open>
  A number that the scorer can use as \<open>technical_years_experience\<close>: a \<open>float\<close>, or an \<open>int\<close>
  that the one conversion the scorer makes (of an \<open>int\<close> below 1) does not reject.
\<close>

definition in_float_range :: "pyval \<Rightarrow> bool" where
  "in_float_range v =
     ((\<exists>t. v = Num t) \<or> (\<exists>i. v = PyInt i \<and> - (2 ^ 1024 - 2 ^ 970) < i))"


section \<open>The normaliser and the alias table\<close>

lemma lower_char_idem: "lower_char (lower_char c) = lower_char c"
  by (simp add: lower_char_def Let_def)

lemma lowered_lower: "lowered (lower s)"
  by (simp add: lowered_def lower_def lower_char_idem)

lemma lower_fixed: "lowered s \<Longrightarrow> lower s = s"
  by (simp add: lowered_def lower_def map_idI)

lemma lowered_subset: "lowered s \<Longrightarrow> set t \<subseteq> set s \<Longrightarrow> lowered t"
  by (auto simp: lowered_def)

lemma no_lead_dropWhile: "no_lead (dropWhile is_space s)"
  by (induction s) (auto simp: no_lead_def)

lemma last_dropWhile_keep: "dropWhile P s \<noteq> [] \<Longrightarrow> last (dropWhile P s) = last s"
  by (induction s) (auto split: if_splits)

lemma no_trail_dropWhile: "no_trail s \<Longrightarrow> no_trail (dropWhile P s)"
proof (cases "dropWhile P s = []")
  case True
  then show ?thesis by (simp add: no_trail_def)
next
  case False
  assume "no_trail s"
  moreover from False have "s \<noteq> []" by auto
  ultimately show ?thesis using last_dropWhile_keep [OF False] by (simp add: no_trail_def)
qed

lemma last_drop_keep: "drop n s \<noteq> [] \<Longrightarrow> last (drop n s) = last s"
  by (induction s arbitrary: n) (auto simp: drop_Cons split: nat.splits)

lemma no_trail_drop: "no_trail s \<Longrightarrow> no_trail (drop n s)"
proof (cases "drop n s = []")
  case True
  then show ?thesis by (simp add: no_trail_def)
next
  case False
  assume "no_trail s"
  moreover from False have "s \<noteq> []" by auto
  ultimately show ?thesis using last_drop_keep [OF False] by (simp add: no_trail_def)
qed

lemma no_lead_rev: "no_lead (rev s) = no_trail s"
  by (cases s rule: rev_cases) (simp_all add: no_lead_def no_trail_def)

lemma no_trail_rev: "no_trail (rev s) = no_lead s"
  by (cases s) (simp_all add: no_lead_def no_trail_def)

lemma strip_no_lead: "no_lead (strip s)"
  unfolding strip_def no_lead_rev
  by (rule no_trail_dropWhile) (simp add: no_trail_rev no_lead_dropWhile)

lemma strip_no_trail: "no_trail (strip s)"
  unfolding strip_def no_trail_rev by (rule no_lead_dropWhile)

lemma dropWhile_no_lead: "no_lead s \<Longrightarrow> dropWhile is_space s = s"
  by (cases s) (simp_all add: no_lead_def)

lemma strip_fixed: "no_lead s \<Longrightarrow> no_trail s \<Longrightarrow> strip s = s"
  by (simp add: strip_def dropWhile_no_lead no_lead_rev)

lemma set_strip: "set (strip s) \<subseteq> set s"
proof
  fix x assume "x \<in> set (strip s)"
  then have "x \<in> set (dropWhile is_space (rev (dropWhile is_space s)))"
    by (simp add: strip_def)
  then have "x \<in> set (rev (dropWhile is_space s))" by (rule set_dropWhileD)
  then have "x \<in> set (dropWhile is_space s)" by simp
  then show "x \<in> set s" by (rule set_dropWhileD)
qed

lemma sub_prefix_set: "set (sub_prefix ps s) \<subseteq> set s"
  by (induction ps) (auto dest: set_dropWhileD in_set_dropD)

lemma sub_prefix_no_lead: "no_lead s \<Longrightarrow> no_lead (sub_prefix ps s)"
  by (induction ps) (auto simp: no_lead_dropWhile)

lemma sub_prefix_no_trail: "no_trail s \<Longrightarrow> no_trail (sub_prefix ps s)"
  by (induction ps) (auto simp: no_trail_dropWhile no_trail_drop)

lemma sub_suffix_set: "set (sub_suffix ws s) \<subseteq> insert (CHR 0x0A) (set s)"
  by (induction s) auto

lemma sub_suffix_no_lead: "no_lead s \<Longrightarrow> no_lead (sub_suffix ws s)"
  by (cases s) (auto simp: no_lead_def)

lemma sub_suffix_Nil: "sub_suffix ws s = [] \<Longrightarrow> s = [] \<or> (is_space (hd s) \<and> dropWhile is_space (tl s) \<in> set ws)"
  by (cases s) (auto split: if_splits)

lemma sub_suffix_no_trail: "no_trail s \<Longrightarrow> no_trail (sub_suffix ws s)"
proof (induction s)
  case Nil
  then show ?case by (simp add: no_trail_def)
next
  case (Cons c cs)
  show ?case
  proof (cases "is_space c \<and> at_end ws (dropWhile is_space cs)")
    case True
    show ?thesis
    proof (cases "dropWhile is_space cs \<in> set ws")
      case True
      with \<open>is_space c \<and> at_end ws (dropWhile is_space cs)\<close> show ?thesis
        by (simp add: no_trail_def)
    next
      case False
      with True have ne: "dropWhile is_space cs \<noteq> []" and nl: "last (dropWhile is_space cs) = CHR 0x0A"
        by (auto simp: at_end_def)
      from ne have "cs \<noteq> []" by auto
      with last_dropWhile_keep [OF ne] nl have "last (c # cs) = CHR 0x0A" by simp
      moreover have "is_space (CHR 0x0A)" by (simp add: is_space_def)
      ultimately show ?thesis using Cons.prems by (simp add: no_trail_def)
    qed
  next
    case False
    then have res: "sub_suffix ws (c # cs) = c # sub_suffix ws cs" by auto
    show ?thesis
    proof (cases "cs = []")
      case True
      with Cons.prems res show ?thesis by (simp add: no_trail_def)
    next
      case ne: False
      with Cons.prems have "no_trail cs" by (simp add: no_trail_def)
      then have ih: "no_trail (sub_suffix ws cs)" by (rule Cons.IH)
      show ?thesis
      proof (cases "sub_suffix ws cs = []")
        case True
        with sub_suffix_Nil [OF True] ne
        have sp: "is_space (hd cs)" and m: "dropWhile is_space (tl cs) \<in> set ws" by auto
        from ne sp have "dropWhile is_space cs = dropWhile is_space (tl cs)" by (cases cs) auto
        with m have "at_end ws (dropWhile is_space cs)" by (simp add: at_end_def)
        with False have "\<not> is_space c" by simp
        with res True show ?thesis by (simp add: no_trail_def)
      next
        case False
        with ih res show ?thesis by (simp add: no_trail_def)
      qed
    qed
  qed
qed

lemma lookup_alias_cases: "lookup_alias T k \<in> set (map fst T) \<or> lookup_alias T k = k"
  by (induction T) force+

lemma clean_skill_lowered: "lowered (clean_skill s)"
proof -
  have "set (clean_skill s) \<subseteq> insert (CHR 0x0A) (set (lower s))"
    unfolding clean_skill_def
    using sub_suffix_set [of filler_suffixes "sub_prefix filler_prefixes (strip (lower s))"]
      sub_prefix_set [of filler_prefixes "strip (lower s)"] set_strip [of "lower s"]
    by blast
  moreover have "lower_char (CHR 0x0A) = CHR 0x0A" by (simp add: lower_char_def)
  ultimately show ?thesis using lowered_lower [of s] by (auto simp: lowered_def)
qed

lemma clean_skill_no_lead: "no_lead (clean_skill s)"
  unfolding clean_skill_def
  by (intro sub_suffix_no_lead sub_prefix_no_lead strip_no_lead)

lemma clean_skill_no_trail: "no_trail (clean_skill s)"
  unfolding clean_skill_def
  by (intro sub_suffix_no_trail sub_prefix_no_trail strip_no_trail)

lemma canonical_fixed:
  "list_all (\<lambda>c. c = ''ci/cd'' \<or> normalize_skill c = c) (map fst SKILL_ALIASES)"
  by code_simp

text \<open>
  Claim C4, as amended. One call strips one filler prefix and one filler suffix, so a second
  call can strip more: \<open>normalize_skill\<close> is not idempotent on every string. It is a
  fixed point on every result that has no filler prefix and no filler suffix left; the result
  \<open>ci/cd\<close>, which the table lists under \<open>jenkins\<close> as well, is left aside.
\<close>

theorem normalize_skill_idempotent_when_clean:
  assumes pre: "sub_prefix filler_prefixes (normalize_skill s) = normalize_skill s"
    and suf: "sub_suffix filler_suffixes (normalize_skill s) = normalize_skill s"
    and ne: "normalize_skill s \<noteq> ''ci/cd''"
  shows "normalize_skill (normalize_skill s) = normalize_skill s"
proof -
  let ?k = "clean_skill s"
  let ?n = "normalize_skill s"
  have n: "?n = lookup_alias SKILL_ALIASES ?k" by (simp add: normalize_skill_def)
  from lookup_alias_cases [of SKILL_ALIASES ?k]
  consider (key) "?n \<in> set (map fst SKILL_ALIASES)" | (same) "?n = ?k"
    unfolding n by blast
  then show ?thesis
  proof cases
    case key
    with canonical_fixed ne show ?thesis by (auto simp: list_all_iff)
  next
    case same
    have "strip (lower ?k) = ?k"
      by (simp add: lower_fixed clean_skill_lowered strip_fixed clean_skill_no_lead
          clean_skill_no_trail)
    with pre suf same have "clean_skill ?n = ?k" by (simp add: clean_skill_def)
    then have "normalize_skill ?n = lookup_alias SKILL_ALIASES ?k"
      by (simp add: normalize_skill_def)
    with n show ?thesis by simp
  qed
qed

theorem normalize_skill_idempotent_witness:
  "sub_prefix filler_prefixes (normalize_skill ''  Using Python  Programming '') =
     normalize_skill ''  Using Python  Programming '' \<and>
   sub_suffix filler_suffixes (normalize_skill ''  Using Python  Programming '') =
     normalize_skill ''  Using Python  Programming '' \<and>
   normalize_skill ''  Using Python  Programming '' \<noteq> ''ci/cd'' \<and>
   normalize_skill ''  Using Python  Programming '' = ''python'' \<and>
   normalize_skill (normalize_skill ''  Using Python  Programming '') =
     normalize_skill ''  Using Python  Programming ''"
proof -
  have v: "normalize_skill ''  Using Python  Programming '' = ''python''" by code_simp
  have p: "sub_prefix filler_prefixes ''python'' = ''python''" by code_simp
  have q: "sub_suffix filler_suffixes ''python'' = ''python''" by code_simp
  have r: "''python'' \<noteq> ''ci/cd''" by simp
  from normalize_skill_idempotent_when_clean [of "''  Using Python  Programming ''"]
    p q r v show ?thesis by simp
qed

text \<open>
  Claim C4 as stated fails: only the first \<open>using\<close> is stripped by the first call.
\<close>

theorem normalize_skill_not_idempotent:
  "normalize_skill (normalize_skill ''using using python'') \<noteq>
     normalize_skill ''using using python''"
  by code_simp

text \<open>
  Claim C5: no two canonical entries share an alias. The table breaks it at one place: the
  alias \<open>cicd\<close> is listed under both \<open>jenkins\<close> and \<open>ci/cd\<close>.
\<close>

theorem SKILL_ALIASES_shared_alias:
  "map_of SKILL_ALIASES ''jenkins'' = Some [''ci/cd'', ''cicd''] \<and>
   map_of SKILL_ALIASES ''ci/cd'' =
     Some [''continuous integration'', ''continuous deployment'', ''cicd'']"
  by code_simp

section \<open>The experience curve and the aggregation\<close>

lemma map_of_in_set: "map_of cs k = Some v \<Longrightarrow> (k, v) \<in> set cs"
  by (rule map_of_SomeD)

lemma weighted_keys_exceed:
  "\<forall>k \<in> set (map fst weights). exceeds 0.3 (k, Num 1.0)"
  by code_simp

lemma weighted_keys_distinct: "distinct (map fst weights)"
  by code_simp

lemma length_weights: "length weights = 7"
  by (simp add: weights_def)

lemma component_count_all_ones:
  assumes "\<forall>k \<in> set (map fst weights). map_of component_scores k = Some (Num 1.0)"
  shows "7 \<le> component_count component_scores"
proof -
  let ?S = "(\<lambda>k. (k, Num 1.0)) ` set (map fst weights)"
  have "?S \<subseteq> set (filter (exceeds 0.3) component_scores)"
  proof
    fix x assume "x \<in> ?S"
    then obtain k where k: "k \<in> set (map fst weights)" and x: "x = (k, Num 1.0)" by auto
    from assms k have "(k, Num 1.0) \<in> set component_scores" by (auto dest: map_of_SomeD)
    moreover from weighted_keys_exceed k have "exceeds 0.3 (k, Num 1.0)"
      by blast
    ultimately show "x \<in> set (filter (exceeds 0.3) component_scores)" using x by simp
  qed
  then have "card ?S \<le> card (set (filter (exceeds 0.3) component_scores))"
    by (intro card_mono) simp_all
  also have "\<dots> \<le> component_count component_scores"
    unfolding component_count_def by (rule card_length)
  finally have "card ?S \<le> component_count component_scores" .
  moreover have "card ?S = card (set (map fst weights))"
    by (intro card_image) (simp add: inj_on_def)
  moreover have "card (set (map fst weights)) = 7"
    using distinct_card [OF weighted_keys_distinct] length_weights by simp
  ultimately show ?thesis by simp
qed

lemma weighted_total_all_ones:
  assumes "\<forall>k \<in> set (map fst weights). map_of component_scores k = Some (Num 1.0)"
  shows "weighted_total weights component_scores 0.0 = Inr 1.0"
  using assms by (simp add: weights_def)

lemma per_component_all_ones:
  assumes "\<forall>k \<in> set (map fst weights). map_of component_scores k = Some (Num 1.0)"
  shows "\<exists>ps. per_component weights component_scores = Inr ps"
  using assms by (simp add: weights_def)

text \<open>
  Claim C2: with all seven weighted sub-scores equal to 1.0 the raw total is 1.0, the density
  bonus applies (at least 5 components above 0.3) and multiplies by 1.1, the clamp brings
  110 back to 100, and the result has \<open>score_0_100 = 100.0\<close> and \<open>score_0_10 = 10.0\<close>.
\<close>

theorem aggregate_all_ones:
  assumes "\<forall>k \<in> set (map fst weights). map_of component_scores k = Some (Num 1.0)"
  shows "weighted_total weights component_scores 0.0 = Inr 1.0 \<and>
         5 \<le> component_count component_scores \<and>
         density_adjust (component_count component_scores) 1.0 = 1.1 \<and>
         min 100.0 (density_adjust (component_count component_scores) 1.0 * 100) = (100.0 :: real) \<and>
         (\<exists>r. aggregate_enhanced_scores component_scores = Inr r \<and>
              score_0_100 r = 100.0 \<and> score_0_10 r = 10.0)"
proof -
  have t: "weighted_total weights component_scores 0.0 = Inr 1.0"
    using assms by (rule weighted_total_all_ones)
  have c: "5 \<le> component_count component_scores"
    using component_count_all_ones [OF assms] by simp
  then have d: "density_adjust (component_count component_scores) 1.0 = 1.1"
    by (simp add: density_adjust_def)
  obtain ps where ps: "per_component weights component_scores = Inr ps"
    using per_component_all_ones [OF assms] by blast
  have r1: "py_round 100 1 = 100" by (simp add: py_round_def Let_def)
  have r2: "py_round 10 2 = 10" by (simp add: py_round_def Let_def)
  from t d ps r1 r2 show ?thesis
    using c by (simp add: aggregate_enhanced_scores_def)
qed

theorem aggregate_all_ones_witness:
  "weighted_total weights (map (\<lambda>k. (k, Num 1.0)) (map fst weights)) 0.0 = Inr 1.0 \<and>
   (\<exists>r. aggregate_enhanced_scores (map (\<lambda>k. (k, Num 1.0)) (map fst weights)) = Inr r \<and>
        score_0_100 r = 100.0 \<and> score_0_10 r = 10.0)"
proof -
  have "\<forall>k \<in> set (map fst weights).
          map_of (map (\<lambda>k. (k, Num 1.0)) (map fst weights)) k = Some (Num 1.0)"
    by code_simp
  from aggregate_all_ones [OF this] show ?thesis by blast
qed

lemma experience_duration_score_mono:
  "t1 \<le> t2 \<Longrightarrow> experience_duration_score t1 \<le> experience_duration_score t2"
  unfolding experience_duration_score_def by argo

text \<open>
  Claim C3: \<open>experience_duration_score\<close> is the piecewise-linear curve of the five brackets,
  is monotonic non-decreasing, and takes the values 1.0 at 5, 0.8 at 3 and 0.0 at 0.
\<close>

theorem experience_duration_score_curve:
  "(5 \<le> t \<longrightarrow> experience_duration_score t = 1.0) \<and>
   (3 \<le> t \<and> t < 5 \<longrightarrow> experience_duration_score t = 0.8 + (t - 3) * 0.1) \<and>
   (1 \<le> t \<and> t < 3 \<longrightarrow> experience_duration_score t = 0.4 + (t - 1) * 0.2) \<and>
   (0.5 \<le> t \<and> t < 1 \<longrightarrow> experience_duration_score t = 0.2 + (t - 0.5) * 0.4) \<and>
   (t < 0.5 \<longrightarrow> experience_duration_score t = t * 0.4) \<and>
   (t1 \<le> t2 \<longrightarrow> experience_duration_score t1 \<le> experience_duration_score t2) \<and>
   experience_duration_score 5.0 = 1.0 \<and>
   experience_duration_score 3.0 = 0.8 \<and>
   experience_duration_score 0 = 0.0"
  using experience_duration_score_mono [of t1 t2] by (simp add: experience_duration_score_def)

theorem experience_duration_score_curve_witness:
  "experience_duration_score 6 = 1 \<and> experience_duration_score 4 = 0.9 \<and>
   experience_duration_score 2 = 0.6 \<and> experience_duration_score 0.75 = 0.3 \<and>
   experience_duration_score 0.25 = 0.1 \<and>
   experience_duration_score 0.25 \<le> experience_duration_score 0.75"
  using experience_duration_score_curve [of 6 0 0] experience_duration_score_curve [of 4 0 0]
    experience_duration_score_curve [of 2 0 0] experience_duration_score_curve [of "0.75" 0 0]
    experience_duration_score_curve [of "0.25" "0.25" "0.75"]
  by simp

section \<open>The longest match stays inside its region, so the work list empties\<close>

lemma scan_row_good:
  assumes "good_row (i - alo) blo j2len" and "alo \<le> i"
    and "good_row (i + 1 - alo) blo newj2len" and "good_match alo (i + 1) blo bhi best"
  shows "good_row (i + 1 - alo) blo (fst (scan_row i blo bhi j2len js (newj2len, best))) \<and>
         good_match alo (i + 1) blo bhi (snd (scan_row i blo bhi j2len js (newj2len, best)))"
  using assms(3,4)
proof (induction js arbitrary: newj2len best)
  case Nil
  then show ?case by simp
next
  case (Cons j js)
  obtain besti bestj bestsize where best: "best = (besti, bestj, bestsize)"
    by (cases best) auto
  show ?case
  proof (cases "j < blo \<or> bhi \<le> j")
    case True
    with Cons best show ?thesis by auto
  next
    case False
    define k where "k = (if j = 0 then 0 else j2len (j - 1)) + 1"
    from False have jb: "blo \<le> j" "j < bhi" by auto
    from assms(1) have p1: "j2len (j - 1) \<le> i - alo" and p2: "j2len (j - 1) \<le> j - 1 + 1 - blo"
      unfolding good_row_def by blast+
    have k0: "0 < k" by (simp add: k_def)
    have k1: "k \<le> i + 1 - alo"
      using p1 assms(2) unfolding k_def by (cases "j = 0") simp_all
    have k2: "k \<le> j + 1 - blo"
      using p2 jb(1) unfolding k_def by (cases "j = 0") simp_all
    have row: "good_row (i + 1 - alo) blo (newj2len(j := k))"
      using Cons.prems(1) k1 k2 by (simp add: good_row_def)
    have gm: "good_match alo (i + 1) blo bhi
            (if bestsize < k then (i + 1 - k, j + 1 - k, k) else (besti, bestj, bestsize))"
      using Cons.prems(2) k1 k2 k0 jb assms(2) best unfolding good_match_def
      by (simp split: if_splits) arith
    have step: "scan_row i blo bhi j2len (j # js) (newj2len, best) =
        scan_row i blo bhi j2len js
          (newj2len(j := k),
           if bestsize < k then (i + 1 - k, j + 1 - k, k) else (besti, bestj, bestsize))"
      using jb best by (simp add: k_def Let_def)
    show ?thesis unfolding step by (rule Cons.IH [OF row gm])
  qed
qed

lemma scan_rows_good:
  assumes "good_row (i - alo) blo j2len" and "alo \<le> i" and "good_match alo i blo bhi best"
  shows "good_match alo (max i ahi) blo bhi (scan_rows a b blo bhi [i..<ahi] (j2len, best))"
  using assms
proof (induction "ahi - i" arbitrary: i j2len best)
  case 0
  then show ?case by (simp add: max_def)
next
  case (Suc n)
  then have lt: "i < ahi" by simp
  then have rows: "[i..<ahi] = i # [Suc i..<ahi]" by (rule upt_conv_Cons)
  let ?st = "scan_row i blo bhi j2len (b2j b (a ! i)) (\<lambda>_. 0, best)"
  have g0: "good_row (i + 1 - alo) blo (\<lambda>_. 0)" by (simp add: good_row_def)
  have g1: "good_match alo (i + 1) blo bhi best"
    using Suc.prems(3) by (cases best) (auto simp: good_match_def)
  from scan_row_good [OF Suc.prems(1,2) g0 g1, of "b2j b (a ! i)"]
  have r: "good_row (Suc i - alo) blo (fst ?st)" and m: "good_match alo (Suc i) blo bhi (snd ?st)"
    by simp_all
  from Suc.hyps(2) have n: "n = ahi - Suc i" by simp
  from Suc.prems(2) have le: "alo \<le> Suc i" by simp
  have "good_match alo (max (Suc i) ahi) blo bhi
          (scan_rows a b blo bhi [Suc i..<ahi] (fst ?st, snd ?st))"
    by (rule Suc.hyps(1) [OF n r le m])
  moreover from lt have "max (Suc i) ahi = max i ahi" by simp
  ultimately show ?case by (simp add: rows)
qed

lemma extend_left_good:
  "good_match alo ahi blo bhi m \<Longrightarrow> good_match alo ahi blo bhi (extend_left a b alo blo m)"
proof (induction a b alo blo m rule: extend_left.induct)
  case (1 a b alo blo besti bestj bestsize)
  show ?case
  proof (cases "alo < besti \<and> blo < bestj \<and> a ! (besti - 1) = b ! (bestj - 1)")
    case True
    with "1.prems" have "good_match alo ahi blo bhi (besti - 1, bestj - 1, bestsize + 1)"
      unfolding good_match_def by simp arith
    with True have "good_match alo ahi blo bhi
        (extend_left a b alo blo (besti - 1, bestj - 1, bestsize + 1))"
      by (intro "1.IH") simp_all
    with True show ?thesis by (subst extend_left.simps) simp
  next
    case False
    with "1.prems" show ?thesis by (subst extend_left.simps) auto
  qed
qed

lemma extend_right_good:
  "good_match alo ahi blo bhi m \<Longrightarrow> good_match alo ahi blo bhi (extend_right a b ahi bhi m)"
proof (induction a b ahi bhi m rule: extend_right.induct)
  case (1 a b ahi bhi besti bestj bestsize)
  show ?case
  proof (cases "besti + bestsize < ahi \<and> bestj + bestsize < bhi \<and>
                a ! (besti + bestsize) = b ! (bestj + bestsize)")
    case True
    with "1.prems" have "good_match alo ahi blo bhi (besti, bestj, bestsize + 1)"
      unfolding good_match_def by simp arith
    with True have "good_match alo ahi blo bhi
        (extend_right a b ahi bhi (besti, bestj, bestsize + 1))"
      by (intro "1.IH") simp_all
    with True show ?thesis by (subst extend_right.simps) simp
  next
    case False
    with "1.prems" show ?thesis by (subst extend_right.simps) auto
  qed
qed

lemma find_longest_match_good:
  "good_match alo ahi blo bhi (find_longest_match a b alo ahi blo bhi)"
proof -
  let ?dp = "scan_rows a b blo bhi [alo..<ahi] (\<lambda>_. 0, (alo, blo, 0))"
  have "good_match alo (max alo ahi) blo bhi ?dp"
    by (rule scan_rows_good) (simp_all add: good_row_def good_match_def)
  moreover have "ahi < alo \<Longrightarrow> ?dp = (alo, blo, 0)" by simp
  ultimately have "good_match alo ahi blo bhi ?dp"
    by (cases "alo \<le> ahi") (auto simp: max_def good_match_def)
  then show ?thesis
    unfolding find_longest_match_def by (intro extend_right_good extend_left_good)
qed

lemma find_longest_match_bounds:
  assumes "find_longest_match a b alo ahi blo bhi = (i, j, k)" and "k \<noteq> 0"
  shows "alo \<le> i \<and> i + k \<le> ahi \<and> blo \<le> j \<and> j + k \<le> bhi"
  using find_longest_match_good [of alo ahi blo bhi a b] assms by (simp add: good_match_def)

termination matching_blocks
  apply (relation "measure (\<lambda>(a, b, queue, acc). sum_list (map (\<lambda>(alo, ahi, blo, bhi). 2 * (ahi - alo) + 1) queue))")
    apply simp
   apply simp
  subgoal premises prems for a b alo ahi blo bhi queue acc i y j k
  proof -
    from prems have "find_longest_match a b alo ahi blo bhi = (i, j, k)" by simp
    from find_longest_match_bounds [OF this] prems show ?thesis by auto
  qed
  done

declare matching_blocks.simps [simp del]

section \<open>The similarity ratio: its range, a string against itself, and the order of the arguments\<close>

lemma plain_run_step:
  "plain_run a x = (if popular a (a ! x) then 0 else run_before (plain_run a) x + 1)"
  by (cases x) (simp_all add: run_before_def)

lemma scan_row_new:
  assumes "\<forall>j \<in> set js. j < bhi"
  shows "fst (scan_row i 0 bhi j2len js (new, best)) =
           (\<lambda>j. if j \<in> set js then run_before j2len j + 1 else new j)"
  using assms
proof (induction js arbitrary: new best)
  case Nil
  then show ?case by simp
next
  case (Cons j js)
  obtain bi bj bs where best: "best = (bi, bj, bs)" by (cases best) auto
  from Cons.prems have lt: "\<not> bhi \<le> j" and rest: "\<forall>j \<in> set js. j < bhi" by auto
  let ?k = "run_before j2len j + 1"
  have step: "scan_row i 0 bhi j2len (j # js) (new, best) =
      scan_row i 0 bhi j2len js
        (new(j := ?k), if bs < ?k then (i + 1 - ?k, j + 1 - ?k, ?k) else (bi, bj, bs))"
    using lt best by (simp add: run_before_def Let_def)
  show ?case unfolding step Cons.IH [OF rest] by (auto simp: fun_eq_iff)
qed

lemma scan_row_keep:
  assumes "\<forall>j \<in> set js. j < bhi \<and> run_before j2len j + 1 \<le> bs"
  shows "snd (scan_row i 0 bhi j2len js (new, (bi, bj, bs))) = (bi, bj, bs)"
  using assms
proof (induction js arbitrary: new)
  case Nil
  then show ?case by simp
next
  case (Cons j js)
  from Cons.prems have lt: "\<not> bhi \<le> j" and le: "\<not> bs < run_before j2len j + 1"
    and rest: "\<forall>j \<in> set js. j < bhi \<and> run_before j2len j + 1 \<le> bs" by auto
  have step: "scan_row i 0 bhi j2len (j # js) (new, (bi, bj, bs)) =
      scan_row i 0 bhi j2len js (new(j := run_before j2len j + 1), (bi, bj, bs))"
    using lt le by (simp add: run_before_def Let_def)
  show ?case unfolding step by (rule Cons.IH [OF rest])
qed

lemma scan_row_append:
  assumes "\<forall>j \<in> set xs. j < bhi"
  shows "scan_row i 0 bhi j2len (xs @ ys) st =
           scan_row i 0 bhi j2len ys (scan_row i 0 bhi j2len xs st)"
  using assms
proof (induction xs arbitrary: st)
  case Nil
  then show ?case by simp
next
  case (Cons j xs)
  obtain new bi bj bs where st: "st = (new, bi, bj, bs)" by (cases st) auto
  from Cons.prems have lt: "\<not> bhi \<le> j" and rest: "\<forall>j \<in> set xs. j < bhi" by auto
  show ?case using lt Cons.IH [OF rest] by (simp add: st Let_def)
qed


lemma row_ok_start: "row_ok a 0 (\<lambda>_. 0)"
  by (simp add: row_ok_def)

lemma scan_row_self:
  assumes r: "r < length a" and row: "row_ok a r j2len" and best: "best_ok a r best"
  shows "row_ok a (Suc r) (fst (scan_row r 0 (length a) j2len (b2j a (a ! r)) (\<lambda>_. 0, best))) \<and>
         best_ok a (Suc r) (snd (scan_row r 0 (length a) j2len (b2j a (a ! r)) (\<lambda>_. 0, best)))"
proof -
  obtain bi bs where b: "best = (bi, bi, bs)" and seen: "\<forall>x < r. plain_run a x \<le> bs"
    using best by (cases best) (auto simp: best_ok_def)
  from row have J1: "\<And>j. j2len j \<le> plain_run a j"
    and J2: "\<And>j. j2len j \<le> run_before (plain_run a) r"
    and J3: "0 < r \<Longrightarrow> j2len (r - 1) = plain_run a (r - 1)"
    by (auto simp: row_ok_def)
  show ?thesis
  proof (cases "popular a (a ! r)")
    case True
    then have z: "plain_run a r = 0" by (subst plain_run_step) simp
    from True have e: "b2j a (a ! r) = []" by (simp add: b2j_def)
    have "row_ok a (Suc r) (\<lambda>_. 0)" using z by (simp add: row_ok_def)
    moreover have "best_ok a (Suc r) best"
      unfolding b best_ok_def using seen z by (simp add: less_Suc_eq)
    ultimately show ?thesis by (simp add: e)
  next
    case False
    let ?n = "length a"
    let ?P = "\<lambda>j. a ! j = a ! r"
    let ?k = "\<lambda>j. run_before j2len j + 1"
    let ?xs = "filter ?P [0..<r]" and ?ys = "filter ?P [Suc r..<?n]"
    have dr: "plain_run a r = run_before (plain_run a) r + 1"
      using False by (subst plain_run_step) simp
    have "[0..<r + (?n - r)] = [0..<r] @ [r..<r + (?n - r)]" by (rule upt_add_eq_append) simp
    then have "[0..<r] @ [r..<?n] = [0..<?n]" using r by simp
    moreover have "[r..<?n] = r # [Suc r..<?n]" using r by (rule upt_conv_Cons)
    ultimately have upt: "[0..<?n] = [0..<r] @ [r] @ [Suc r..<?n]" by simp
    have js: "b2j a (a ! r) = ?xs @ [r] @ ?ys"
      using False by (simp add: b2j_def upt)
    have in_js: "\<And>j. j \<in> set (b2j a (a ! r)) \<Longrightarrow> j < ?n \<and> a ! j = a ! r"
      using False by (auto simp: b2j_def)
    have k1: "?k j \<le> plain_run a j" if "a ! j = a ! r" for j
    proof -
      have "run_before j2len j \<le> run_before (plain_run a) j"
        using J1 [of "j - 1"] by (auto simp: run_before_def split: if_splits)
      moreover have "plain_run a j = run_before (plain_run a) j + 1"
        using False that by (subst plain_run_step) simp
      ultimately show ?thesis by simp
    qed
    have k2: "?k j \<le> plain_run a r" for j
    proof -
      have "run_before j2len j \<le> run_before (plain_run a) r"
        using J2 [of "j - 1"] by (cases "j = 0") (simp_all add: run_before_def [of j2len])
      with dr show ?thesis by simp
    qed
    have k3: "?k r = plain_run a r"
    proof -
      have "run_before j2len r = run_before (plain_run a) r"
        using J3 by (cases "r = 0") (simp_all add: run_before_def)
      with dr show ?thesis by simp
    qed
    have bound: "\<forall>j \<in> set (b2j a (a ! r)). j < ?n" using in_js by blast
    have new: "fst (scan_row r 0 ?n j2len (b2j a (a ! r)) (\<lambda>_. 0, best)) =
                 (\<lambda>j. if j \<in> set (b2j a (a ! r)) then ?k j else 0)"
      by (rule scan_row_new [OF bound])
    have rin: "r \<in> set (b2j a (a ! r))" by (simp add: js)
    have row': "row_ok a (Suc r) (\<lambda>j. if j \<in> set (b2j a (a ! r)) then ?k j else 0)"
      unfolding row_ok_def
    proof (intro conjI allI impI)
      fix j show "(if j \<in> set (b2j a (a ! r)) then ?k j else 0) \<le> plain_run a j"
        using k1 [of j] in_js [of j] by simp
    next
      fix j show "(if j \<in> set (b2j a (a ! r)) then ?k j else 0) \<le> run_before (plain_run a) (Suc r)"
        using k2 [of j] by (simp add: run_before_def)
    next
      show "(if Suc r - 1 \<in> set (b2j a (a ! r)) then ?k (Suc r - 1) else 0) =
              plain_run a (Suc r - 1)"
        using rin k3 by simp
    qed
    let ?st0 = "(\<lambda>_. 0 :: nat, best)"
    let ?st1 = "scan_row r 0 ?n j2len ?xs ?st0"
    have xs_lt: "\<forall>j \<in> set ?xs. j < ?n" using r by auto
    have "snd ?st1 = (bi, bi, bs)"
      unfolding b
    proof (rule scan_row_keep, intro ballI conjI)
      fix j assume j: "j \<in> set ?xs"
      then show "j < ?n" using r by auto
      from j have "j < r" and "a ! j = a ! r" by auto
      with k1 [of j] seen show "?k j \<le> bs" by (meson le_trans)
    qed
    then obtain new1 where st1: "?st1 = (new1, bi, bi, bs)" by (cases ?st1) auto
    let ?best2 = "if bs < ?k r then (r + 1 - ?k r, r + 1 - ?k r, ?k r) else (bi, bi, bs)"
    have st2: "scan_row r 0 ?n j2len [r] ?st1 = (new1(r := ?k r), ?best2)"
      using r by (simp add: st1 run_before_def Let_def)
    obtain ci cs where best2: "?best2 = (ci, ci, cs)" and cs1: "bs \<le> cs" and cs2: "?k r \<le> cs"
      by (cases "bs < ?k r") auto
    have ys_lt: "\<forall>j \<in> set ?ys. j < ?n" by auto
    have st3: "snd (scan_row r 0 ?n j2len ?ys (new1(r := ?k r), ci, ci, cs)) = (ci, ci, cs)"
    proof (rule scan_row_keep, intro ballI conjI)
      fix j assume j: "j \<in> set ?ys"
      then show "j < ?n" by auto
      from k2 [of j] k3 cs2 show "?k j \<le> cs" by simp
    qed
    have "scan_row r 0 ?n j2len (b2j a (a ! r)) ?st0 =
            scan_row r 0 ?n j2len ?ys (scan_row r 0 ?n j2len [r] ?st1)"
      unfolding js
      by (subst scan_row_append [OF xs_lt], subst scan_row_append) (use r in simp_all)
    then have "snd (scan_row r 0 ?n j2len (b2j a (a ! r)) ?st0) = (ci, ci, cs)"
      using st2 best2 st3 by simp
    moreover have "best_ok a (Suc r) (ci, ci, cs)"
      unfolding best_ok_def
    proof (simp, intro allI impI)
      fix x assume "x < Suc r"
      then consider "x < r" | "x = r" by (auto simp: less_Suc_eq)
      then show "plain_run a x \<le> cs"
      proof cases
        case 1
        with seen have "plain_run a x \<le> bs" by simp
        with cs1 show ?thesis by simp
      next
        case 2
        with k3 cs2 show ?thesis by simp
      qed
    qed
    ultimately show ?thesis using new row' by simp
  qed
qed

lemma scan_rows_self:
  assumes "row_ok a i j2len" and "best_ok a i best" and "ahi \<le> length a"
  shows "best_ok a (max i ahi) (scan_rows a a 0 (length a) [i..<ahi] (j2len, best))"
  using assms
proof (induction "ahi - i" arbitrary: i j2len best)
  case 0
  then show ?case by (simp add: max_def)
next
  case (Suc m)
  then have lt: "i < ahi" by simp
  then have rows: "[i..<ahi] = i # [Suc i..<ahi]" by (rule upt_conv_Cons)
  let ?st = "scan_row i 0 (length a) j2len (b2j a (a ! i)) (\<lambda>_. 0, best)"
  from lt Suc.prems(3) have "i < length a" by simp
  from scan_row_self [OF this Suc.prems(1,2)]
  have r: "row_ok a (Suc i) (fst ?st)" and b: "best_ok a (Suc i) (snd ?st)" by simp_all
  from Suc.hyps(2) have m: "m = ahi - Suc i" by simp
  have "best_ok a (max (Suc i) ahi) (scan_rows a a 0 (length a) [Suc i..<ahi] (fst ?st, snd ?st))"
    by (rule Suc.hyps(1) [OF m r b Suc.prems(3)])
  moreover from lt have "max (Suc i) ahi = max i ahi" by simp
  ultimately show ?case by (simp add: rows)
qed

lemma extend_left_self: "extend_left a a 0 0 (i, i, k) = (0, 0, k + i)"
proof (induction i arbitrary: k)
  case 0
  then show ?case by (subst extend_left.simps) simp
next
  case (Suc i)
  have "extend_left a a 0 0 (Suc i, Suc i, k) = extend_left a a 0 0 (i, i, k + 1)"
    by (subst extend_left.simps) simp
  with Suc [of "k + 1"] show ?case by simp
qed

lemma extend_right_self: "m \<le> n \<Longrightarrow> extend_right a a n n (0, 0, m) = (0, 0, n)"
proof (induction "n - m" arbitrary: m)
  case 0
  then show ?case by (subst extend_right.simps) simp
next
  case (Suc d)
  then have "extend_right a a n n (0, 0, m) = extend_right a a n n (0, 0, m + 1)"
    by (subst extend_right.simps) simp
  moreover from Suc have "extend_right a a n n (0, 0, m + 1) = (0, 0, n)"
    by (intro Suc.hyps(1)) simp_all
  ultimately show ?case by simp
qed

lemma find_longest_match_self:
  "find_longest_match a a 0 (length a) 0 (length a) = (0, 0, length a)"
proof -
  let ?n = "length a"
  let ?dp = "scan_rows a a 0 ?n [0..<?n] (\<lambda>_. 0, (0, 0, 0))"
  have "best_ok a (max 0 ?n) ?dp"
    by (rule scan_rows_self) (simp_all add: row_ok_start best_ok_def)
  then obtain i k where dp: "?dp = (i, i, k)" by (cases ?dp) (auto simp: best_ok_def)
  have "good_match 0 (max 0 ?n) 0 ?n ?dp"
    by (rule scan_rows_good) (simp_all add: good_row_def good_match_def)
  with dp have "k + i \<le> ?n" by (auto simp: good_match_def)
  then show ?thesis
    by (simp add: find_longest_match_def dp extend_left_self extend_right_self)
qed


lemma collapse_sum:
  "sum_list (map (\<lambda>(i, j, k). k) (collapse (i1, j1, k1) ms)) =
     k1 + sum_list (map (\<lambda>(i, j, k). k) ms)"
proof (induction ms arbitrary: i1 j1 k1)
  case Nil
  then show ?case by simp
next
  case (Cons m ms)
  obtain i2 j2 k2 where m: "m = (i2, j2, k2)" by (cases m) auto
  show ?case unfolding m by (simp add: Cons.IH)
qed

lemma insort_sum:
  "sum_list (map f (insort x ys)) = f x + sum_list (map f ys)"
  for f :: "match \<Rightarrow> nat"
  by (induction ys) simp_all

lemma sort_sum: "sum_list (map f (sort ms)) = sum_list (map f ms)"
  for f :: "match \<Rightarrow> nat"
  by (induction ms) (simp_all add: insort_sum)

lemma get_matching_blocks_sum:
  "sum_list (map (\<lambda>(i, j, k). k) (get_matching_blocks a b)) =
     sum_list (map (\<lambda>(i, j, k). k) (matching_blocks a b [(0, length a, 0, length b)] []))"
  by (simp add: get_matching_blocks_def collapse_sum sort_sum)

lemma matching_blocks_bound:
  "sum_list (map (\<lambda>(i, j, k). k) (matching_blocks a b queue acc)) \<le>
     sum_list (map (\<lambda>(i, j, k). k) acc) +
     sum_list (map (\<lambda>(alo, ahi, blo, bhi). min (ahi - alo) (bhi - blo)) queue)"
proof (induction a b queue acc rule: matching_blocks.induct)
  case (1 a b acc)
  then show ?case by (simp add: matching_blocks.simps)
next
  case (2 a b alo ahi blo bhi queue acc)
  obtain i j k where m: "find_longest_match a b alo ahi blo bhi = (i, j, k)"
    by (cases "find_longest_match a b alo ahi blo bhi") auto
  show ?case
  proof (cases "k = 0")
    case True
    have "matching_blocks a b ((alo, ahi, blo, bhi) # queue) acc = matching_blocks a b queue acc"
      using m True by (simp add: matching_blocks.simps)
    moreover have "sum_list (map (\<lambda>(i, j, k). k) (matching_blocks a b queue acc)) \<le>
        sum_list (map (\<lambda>(i, j, k). k) acc) +
        sum_list (map (\<lambda>(alo, ahi, blo, bhi). min (ahi - alo) (bhi - blo)) queue)"
      using "2.IH"(1) [OF m [symmetric] refl True] .
    ultimately show ?thesis by simp
  next
    case False
    let ?right = "if i + k < ahi \<and> j + k < bhi then [(i + k, ahi, j + k, bhi)] else []"
    let ?left = "if alo < i \<and> blo < j then [(alo, i, blo, j)] else []"
    let ?cap = "\<lambda>(alo, ahi, blo, bhi). min (ahi - alo) (bhi - blo)"
    have step: "matching_blocks a b ((alo, ahi, blo, bhi) # queue) acc =
        matching_blocks a b (?right @ ?left @ queue) (acc @ [(i, j, k)])"
      using m False by (simp add: matching_blocks.simps)
    have ih: "sum_list (map (\<lambda>(i, j, k). k)
                 (matching_blocks a b (?right @ ?left @ queue) (acc @ [(i, j, k)]))) \<le>
        sum_list (map (\<lambda>(i, j, k). k) (acc @ [(i, j, k)])) +
        sum_list (map ?cap (?right @ ?left @ queue))"
      using "2.IH"(2) [OF m [symmetric] refl False] .
    from find_longest_match_bounds [OF m False]
    have b: "alo \<le> i" "i + k \<le> ahi" "blo \<le> j" "j + k \<le> bhi" by simp_all
    define r where "r = sum_list (map ?cap ?right)"
    define l where "l = sum_list (map ?cap ?left)"
    have r: "r \<le> ahi - (i + k)" "r \<le> bhi - (j + k)" by (simp_all add: r_def)
    have l: "l \<le> i - alo" "l \<le> j - blo" by (simp_all add: l_def)
    have "r + l + k \<le> ahi - alo" using r(1) l(1) b(1,2) by arith
    moreover have "r + l + k \<le> bhi - blo" using r(2) l(2) b(3,4) by arith
    ultimately have c: "r + l + k \<le> min (ahi - alo) (bhi - blo)" by simp
    define S where "S = sum_list (map (\<lambda>(i, j, k). k)
                 (matching_blocks a b (?right @ ?left @ queue) (acc @ [(i, j, k)])))"
    define A where "A = sum_list (map (\<lambda>(i, j, k). k) acc)"
    define Q where "Q = sum_list (map ?cap queue)"
    have "S \<le> A + k + (r + l + Q)"
      using ih by (simp add: S_def A_def Q_def r_def l_def)
    with c have "S \<le> A + (min (ahi - alo) (bhi - blo) + Q)" by arith
    then show ?thesis unfolding step S_def A_def Q_def by simp
  qed
qed

lemma ratio_range: "0 \<le> ratio a b \<and> ratio a b \<le> 1"
proof -
  let ?m = "sum_list (map (\<lambda>(i, j, k). k) (get_matching_blocks a b))"
  have "?m \<le> min (length a) (length b)"
    using matching_blocks_bound [of a b "[(0, length a, 0, length b)]" "[]"]
    by (simp add: get_matching_blocks_sum)
  then have "2 * ?m \<le> length a + length b" by simp
  then have le: "2 * real ?m \<le> real (length a + length b)"
    by (metis of_nat_le_iff of_nat_mult of_nat_numeral)
  show ?thesis
  proof (cases "length a + length b = 0")
    case True
    then show ?thesis by (simp add: ratio_def calculate_ratio_def)
  next
    case False
    then have "0 < length a + length b" by simp
    then have pos: "0 < real (length a + length b)" by (simp only: of_nat_0_less_iff)
    define q where "q = 2 * real ?m / real (length a + length b)"
    have "q \<le> 1" unfolding q_def using le pos by (simp only: divide_le_eq_1_pos)
    moreover have "0 \<le> q" unfolding q_def by simp
    moreover have "ratio a b = q"
      unfolding q_def using False by (simp add: ratio_def calculate_ratio_def)
    ultimately show ?thesis by simp
  qed
qed

lemma matching_blocks_self:
  "matching_blocks a a [(0, length a, 0, length a)] [] =
     (if length a = 0 then [] else [(0, 0, length a)])"
  by (simp add: matching_blocks.simps find_longest_match_self)

lemma ratio_self: "ratio a a = 1"
  by (simp add: ratio_def calculate_ratio_def get_matching_blocks_sum matching_blocks_self)

text \<open>
  Claim C8, as amended. \<open>fuzzy_match_score\<close> lies between 0 and 1 for all strings and is 1.0
  for two identical strings. It is not symmetric.
\<close>

theorem fuzzy_match_score_range_and_identity:
  "0 \<le> fuzzy_match_score text1 text2 \<and> fuzzy_match_score text1 text2 \<le> 1 \<and>
   fuzzy_match_score text1 text1 = 1.0"
  using ratio_range [of "lower text1" "lower text2"] ratio_self [of "lower text1"]
  by (simp add: fuzzy_match_score_def)

text \<open>
  Claim C8 as stated fails on symmetry: the longest block of \<open>tide\<close> and \<open>diet\<close> found first
  depends on which string is scanned, and the two orders leave different rests to match.
\<close>

theorem fuzzy_match_score_not_symmetric:
  "fuzzy_match_score ''tide'' ''diet'' = 0.25 \<and> fuzzy_match_score ''diet'' ''tide'' = 0.5 \<and>
   fuzzy_match_score ''tide'' ''diet'' \<noteq> fuzzy_match_score ''diet'' ''tide''"
  by code_simp

section \<open>The matcher: threshold, order, evidence, match rate\<close>

lemma partial_pass_returns: "\<exists>v. partial_pass jd_skill resume_text_lower score = Inr v"
  by (simp add: partial_pass_def py_div_def Let_def)

lemma best_match_returns: "\<exists>score ev. best_match jd_skill resume_text resume_skills = Inr (score, ev)"
proof -
  obtain v where
    "partial_pass jd_skill (lower resume_text)
       (cross_pass (create_skill_variants jd_skill) resume_skills
          (fst (substring_pass resume_text (lower resume_text) (create_skill_variants jd_skill)
                  (0.0, [])))) = Inr v"
    using partial_pass_returns by blast
  then show ?thesis by (simp add: best_match_def Let_def)
qed

lemma map_of_replace:
  "map_of (map (\<lambda>(k', v'). if k' = k then (k', v) else (k', v')) d) x =
     (if x = k then (if k \<in> fst ` set d then Some v else None) else map_of d x)"
proof (induction d)
  case Nil
  then show ?case by simp
next
  case (Cons p d)
  obtain k' v' where p: "p = (k', v')" by (cases p)
  show ?case
  proof (cases "k' = k")
    case True
    with p Cons.IH show ?thesis by simp
  next
    case False
    with p Cons.IH show ?thesis by (auto split: if_splits)
  qed
qed

lemma map_of_dict_set: "map_of (dict_set k v d) x = (if x = k then Some v else map_of d x)"
proof (cases "k \<in> fst ` set d")
  case True
  then show ?thesis by (simp only: dict_set_def if_True map_of_replace)
next
  case False
  then have "map_of d k = None" by (simp add: map_of_eq_None_iff)
  with False show ?thesis by (simp add: dict_set_def map_add_def split: option.splits)
qed

lemma bounded_evidence_step:
  assumes "bounded_evidence ms evidence"
  shows "bounded_evidence (ms @ [s]) (dict_set s (take 3 ev) evidence)"
  using assms by (auto simp: bounded_evidence_def map_of_dict_set)

lemma match_loop_result:
  assumes "bounded_evidence ms evidence"
  shows "\<exists>evidence' confidence'.
           match_loop resume_text resume_skills jd_skills (ms, evidence, confidence) =
             Inr (ms @ filter (matched resume_text resume_skills) jd_skills, evidence', confidence') \<and>
           bounded_evidence (ms @ filter (matched resume_text resume_skills) jd_skills) evidence'"
  using assms
proof (induction jd_skills arbitrary: ms evidence confidence)
  case Nil
  then show ?case by simp
next
  case (Cons jd_skill rest)
  obtain score ev where bm: "best_match jd_skill resume_text resume_skills = Inr (score, ev)"
    using best_match_returns by blast
  show ?case
  proof (cases "0.5 \<le> score")
    case True
    then have m: "matched resume_text resume_skills jd_skill" using bm by (auto simp: matched_def)
    from Cons.IH [OF bounded_evidence_step [OF Cons.prems], of jd_skill ev
        "dict_set jd_skill score confidence"]
    show ?thesis using bm True m by simp
  next
    case False
    then have m: "\<not> matched resume_text resume_skills jd_skill" using bm by (auto simp: matched_def)
    from Cons.IH [OF Cons.prems, of confidence] show ?thesis using bm False m by simp
  qed
qed

lemma find_skill_matches_result:
  "\<exists>evidence confidence.
     find_skill_matches jd_skills resume_text resume_skills =
       Inr \<lparr>matched_skills = filter (matched resume_text resume_skills) jd_skills,
            skill_evidence = evidence, confidence_scores = confidence,
            total_jd_skills = length jd_skills,
            match_rate = real (length (filter (matched resume_text resume_skills) jd_skills)) /
                         real (max 1 (length jd_skills))\<rparr> \<and>
     bounded_evidence (filter (matched resume_text resume_skills) jd_skills) evidence"
proof -
  have "bounded_evidence [] []" by (simp add: bounded_evidence_def)
  from match_loop_result [OF this, of resume_text resume_skills jd_skills "[]"]
  show ?thesis by (auto simp: find_skill_matches_def py_div_def)
qed

text \<open>
  Claim C1: a JD skill is in \<open>matched_skills\<close> exactly when its final best-match score is at
  least 0.5, \<open>matched_skills\<close> keeps the order of \<open>jd_skills\<close>, and every matched skill has
  at most 3 evidence snippets. The matcher returns for every input.
\<close>

theorem find_skill_matches_threshold:
  "\<exists>r. find_skill_matches jd_skills resume_text resume_skills = Inr r \<and>
       matched_skills r =
         filter (\<lambda>s. \<exists>score ev. best_match s resume_text resume_skills = Inr (score, ev) \<and>
                                0.5 \<le> score) jd_skills \<and>
       (\<forall>s \<in> set (matched_skills r).
          \<exists>ev. map_of (skill_evidence r) s = Some ev \<and> length ev \<le> 3)"
  using find_skill_matches_result [of jd_skills resume_text resume_skills]
  unfolding bounded_evidence_def matched_def by force

theorem find_skill_matches_threshold_witness:
  "\<exists>r. find_skill_matches [''Rust'', ''Python'', ''K8s''] ''Built APIs in Python on k8s'' [] = Inr r \<and>
       matched_skills r = [''Python'', ''K8s''] \<and>
       (\<forall>s \<in> set (matched_skills r).
          \<exists>ev. map_of (skill_evidence r) s = Some ev \<and> length ev \<le> 3)"
proof -
  have 1: "best_match ''Rust'' ''Built APIs in Python on k8s'' [] = Inr (0, [])"
    by code_simp
  have 2: "best_match ''Python'' ''Built APIs in Python on k8s'' [] =
             Inr (1, [''Built APIs in Python on k8s'', ''Built APIs in Python on k8s''])"
    by code_simp
  have 3: "best_match ''K8s'' ''Built APIs in Python on k8s'' [] =
             Inr (1, [''Built APIs in Python on k8s'', ''Built APIs in Python on k8s''])"
    by code_simp
  from find_skill_matches_threshold
    [of "[''Rust'', ''Python'', ''K8s'']" "''Built APIs in Python on k8s''" "[]"]
  show ?thesis by (simp add: 1 2 3)
qed

text \<open>
  Claim C7: \<open>match_rate\<close> is the number of matched skills over \<open>max(1, len(jd_skills))\<close>, lies
  between 0 and 1, and is 0 for an empty list of JD skills; no division fails.
\<close>

theorem match_rate_range:
  "(\<exists>r. find_skill_matches jd_skills resume_text resume_skills = Inr r \<and>
        match_rate r = real (length (matched_skills r)) / real (max 1 (length jd_skills)) \<and>
        0 \<le> match_rate r \<and> match_rate r \<le> 1) \<and>
   (\<exists>r. find_skill_matches [] resume_text resume_skills = Inr r \<and> match_rate r = 0)"
proof
  let ?m = "filter (matched resume_text resume_skills) jd_skills"
  have "real (length ?m) \<le> real (max 1 (length jd_skills))"
    using length_filter_le [of "matched resume_text resume_skills" jd_skills]
    by (simp add: le_max_iff_disj)
  then have "real (length ?m) / real (max 1 (length jd_skills)) \<le> 1" by simp
  with find_skill_matches_result [of jd_skills resume_text resume_skills]
  show "\<exists>r. find_skill_matches jd_skills resume_text resume_skills = Inr r \<and>
        match_rate r = real (length (matched_skills r)) / real (max 1 (length jd_skills)) \<and>
        0 \<le> match_rate r \<and> match_rate r \<le> 1"
    by force
next
  from find_skill_matches_result [of "[]" resume_text resume_skills]
  show "\<exists>r. find_skill_matches [] resume_text resume_skills = Inr r \<and> match_rate r = 0"
    by force
qed

section \<open>The component scorer returns; the impact fallback; a negative final score\<close>

lemma py_div_returns: "n \<noteq> 0 \<Longrightarrow> \<exists>v. py_div x n = Inr v"
  by (simp add: py_div_def)

lemma find_skill_matches_empty:
  "find_skill_matches [] resume_text resume_skills =
     Inr \<lparr>matched_skills = [], skill_evidence = [], confidence_scores = [],
          total_jd_skills = 0, match_rate = 0\<rparr>"
  by (simp add: find_skill_matches_def py_div_def)

lemma find_skill_matches_returns:
  "\<exists>sa. find_skill_matches jd_skills resume_text resume_skills = Inr sa \<and>
        (jd_skills = [] \<longrightarrow> confidence_scores sa = [])"
proof (cases "jd_skills = []")
  case True
  then show ?thesis by (simp add: find_skill_matches_empty)
next
  case False
  with find_skill_matches_result [of jd_skills resume_text resume_skills] show ?thesis
    by auto
qed

lemma skill_match_score_returns:
  assumes "jd_skills = [] \<longrightarrow> confidence_scores sa = []"
  shows "\<exists>v. skill_match_score sa jd_skills = Inr v"
  using assms by (cases "jd_skills = []") (simp_all add: skill_match_score_def py_div_def Let_def)

lemma skill_context_score_returns: "\<exists>v. skill_context_score sa = Inr v"
proof (cases "matched_skills sa = []")
  case True
  then show ?thesis by (simp add: skill_context_score_def)
next
  case False
  then show ?thesis
    using py_div_returns [of "max 1 (length (matched_skills sa))"]
    by (simp add: skill_context_score_def Let_def)
qed

lemma job_type_matches_returns:
  assumes "\<forall>(job_type, keywords) \<in> set table. keywords \<noteq> []"
  shows "\<exists>ms. job_type_matches table job_desc_lower resume_lower = Inr ms"
  using assms
proof (induction table)
  case Nil
  then show ?case by simp
next
  case (Cons entry table)
  obtain job_type kws where entry: "entry = (job_type, kws)" by (cases entry)
  from Cons.prems entry have ne: "kws \<noteq> []" by simp
  from Cons obtain ms where "job_type_matches table job_desc_lower resume_lower = Inr ms"
    by auto
  with ne entry show ?case by (simp add: py_div_def Let_def)
qed

lemma job_types_nonempty: "\<forall>(job_type, keywords) \<in> set job_types. keywords \<noteq> []"
  by (simp add: job_types_def)

lemma relevance_score_returns: "\<exists>v. relevance_score job_desc resume_text = Inr v"
proof -
  obtain ms where ms: "job_type_matches job_types (lower job_desc) (lower resume_text) = Inr ms"
    using job_type_matches_returns [OF job_types_nonempty] by blast
  show ?thesis
  proof (cases ms)
    case Nil
    with ms have "relevance_score job_desc resume_text = Inr 0.5"
      by (simp add: relevance_score_def)
    then show ?thesis by blast
  next
    case (Cons m rest)
    with ms show ?thesis by (simp add: relevance_score_def)
  qed
qed

lemma match_statistics_returns: "\<exists>v. match_statistics sa resume_text = Inr v"
proof -
  obtain v where
    "py_div (sum_list (map snd (confidence_scores sa)))
       (max 1 (length (confidence_scores sa))) = Inr v"
    using py_div_returns [of "max 1 (length (confidence_scores sa))"] by auto
  then show ?thesis by (simp add: match_statistics_def)
qed

lemma aggregate_returns:
  assumes "\<forall>k \<in> set (map fst weights). \<exists>v. map_of component_scores k = Some (Num v)"
  shows "\<exists>agg. aggregate_enhanced_scores component_scores = Inr agg"
proof -
  have wt: "\<exists>total. weighted_total ws component_scores acc = Inr total"
    if "\<forall>k \<in> set (map fst ws). \<exists>v. map_of component_scores k = Some (Num v)" for ws acc
    using that
  proof (induction ws arbitrary: acc)
    case Nil
    then show ?case by simp
  next
    case (Cons w ws)
    obtain k weight where w: "w = (k, weight)" by (cases w)
    with Cons.prems obtain v where "map_of component_scores k = Some (Num v)" by auto
    with Cons w show ?case by simp
  qed
  have pc: "\<exists>ps. per_component ws component_scores = Inr ps"
    if "\<forall>k \<in> set (map fst ws). \<exists>v. map_of component_scores k = Some (Num v)" for ws
    using that
  proof (induction ws)
    case Nil
    then show ?case by simp
  next
    case (Cons w ws)
    obtain k weight where w: "w = (k, weight)" by (cases w)
    with Cons.prems obtain v where v: "map_of component_scores k = Some (Num v)" by auto
    from Cons obtain ps where "per_component ws component_scores = Inr ps" by auto
    with v w show ?case by simp
  qed
  from wt [OF assms] obtain total where "weighted_total weights component_scores 0.0 = Inr total"
    by blast
  moreover from pc [OF assms] obtain ps where "per_component weights component_scores = Inr ps"
    by blast
  ultimately show ?thesis by (simp add: aggregate_enhanced_scores_def Let_def)
qed


lemma int_to_float_returns:
  assumes "- (2 ^ 1024 - 2 ^ 970) < i" and "i < 1"
  shows "int_to_float i = Inr (real_of_int i)"
proof -
  from assms have "\<bar>i\<bar> < 2 ^ 1024 - 2 ^ 970" by simp
  then show ?thesis by (simp add: int_to_float_def)
qed

lemma experience_component_returns:
  assumes "\<forall>v. map_of experience_data ''technical_years_experience'' = Some v \<longrightarrow>
             in_float_range v"
  shows "\<exists>x. experience_component
               (dict_get experience_data ''technical_years_experience'' (PyInt 0)) = Inr x \<and>
             (map_of experience_data ''technical_years_experience'' = None \<longrightarrow> x = 0)"
proof (cases "map_of experience_data ''technical_years_experience''")
  case None
  have "int_to_float 0 = Inr 0" using int_to_float_returns [of 0] by simp
  with None show ?thesis
    by (simp add: dict_get_def experience_component_def experience_duration_score_def)
next
  case (Some v)
  with assms have "in_float_range v" by blast
  then consider t where "v = Num t" | i where "v = PyInt i" "- (2 ^ 1024 - 2 ^ 970) < i"
    unfolding in_float_range_def by blast
  then show ?thesis
  proof cases
    case 1
    with Some show ?thesis by (simp add: dict_get_def experience_component_def)
  next
    case 2
    show ?thesis
    proof (cases "1 \<le> i")
      case True
      with 2 Some show ?thesis by (simp add: dict_get_def experience_component_def)
    next
      case False
      then have "int_to_float i = Inr (real_of_int i)"
        using 2(2) by (intro int_to_float_returns) simp_all
      with False 2 Some show ?thesis by (simp add: dict_get_def experience_component_def)
    qed
  qed
qed

text \<open>
  Claim C9, as amended. On well-typed input (strings, lists of strings, an experience record
  whose \<open>technical_years_experience\<close>, when present, is a \<open>float\<close> or an \<open>int\<close> above
  \<open>-(2 ** 1024 - 2 ** 970)\<close>, the range Python converts to a \<open>float\<close>) the component scorer
  and the aggregator return a result: every division has a divisor that is not 0, and a
  missing key of the experience record counts as 0.
\<close>

theorem scorer_returns_in_float_range:
  assumes "\<forall>v. map_of experience_data ''technical_years_experience'' = Some v \<longrightarrow>
             in_float_range v"
  shows "\<exists>component_scores agg.
           compute_enhanced_component_scores job_desc resume_text jd_skills resume_skills
             experience_data = Inr component_scores \<and>
           aggregate_enhanced_scores component_scores = Inr agg \<and>
           (map_of experience_data ''technical_years_experience'' = None \<longrightarrow>
              map_of component_scores ''technical_years_estimate'' = Some (PyInt 0) \<and>
              map_of component_scores ''experience_duration_score'' = Some (Num 0)) \<and>
           (map_of experience_data ''total_years_experience'' = None \<longrightarrow>
              map_of component_scores ''years_experience_estimate'' = Some (PyInt 0))"
proof -
  obtain sa where sa: "find_skill_matches jd_skills resume_text resume_skills = Inr sa"
    and conf: "jd_skills = [] \<longrightarrow> confidence_scores sa = []"
    using find_skill_matches_returns by blast
  obtain v1 where v1: "skill_match_score sa jd_skills = Inr v1"
    using skill_match_score_returns [OF conf] by blast
  obtain v2 where v2: "skill_context_score sa = Inr v2"
    using skill_context_score_returns by blast
  obtain v3 where v3: "experience_component
      (dict_get experience_data ''technical_years_experience'' (PyInt 0)) = Inr v3"
    and zero: "map_of experience_data ''technical_years_experience'' = None \<longrightarrow> v3 = 0"
    using experience_component_returns [OF assms] by auto
  obtain v4 where v4: "relevance_score job_desc resume_text = Inr v4"
    using relevance_score_returns by blast
  obtain v5 where v5: "match_statistics sa resume_text = Inr v5"
    using match_statistics_returns by blast
  let ?cs = "[(''skill_match_score'', Num v1),
               (''skill_context_score'', Num v2),
               (''experience_duration_score'', Num v3),
               (''impact_score'', Num (impact_score resume_text)),
               (''project_score'', Num (project_score resume_text)),
               (''education_score'', Num (education_score resume_text)),
               (''relevance_score'', Num v4),
               (''matched_skills'', StrList (matched_skills sa)),
               (''skill_evidence'', EvidenceDict (skill_evidence sa)),
               (''confidence_scores'', NumDict (confidence_scores sa)),
               (''years_experience_estimate'',
                dict_get experience_data ''total_years_experience'' (PyInt 0)),
               (''technical_years_estimate'',
                dict_get experience_data ''technical_years_experience'' (PyInt 0)),
               (''total_jd_skills'', PyInt (int (length jd_skills))),
               (''match_statistics'', v5)]"
  have c: "compute_enhanced_component_scores job_desc resume_text jd_skills resume_skills
             experience_data = Inr ?cs"
    by (simp add: compute_enhanced_component_scores_def sa v1 v2 v3 v4 v5 Let_def)
  have "\<forall>k \<in> set (map fst weights). \<exists>v. map_of ?cs k = Some (Num v)"
    by (simp add: weights_def)
  then obtain agg where agg: "aggregate_enhanced_scores ?cs = Inr agg"
    using aggregate_returns by blast
  have e1: "map_of experience_data ''technical_years_experience'' = None \<longrightarrow>
          map_of ?cs ''technical_years_estimate'' = Some (PyInt 0) \<and>
          map_of ?cs ''experience_duration_score'' = Some (Num 0)"
    using zero by (simp add: dict_get_def)
  have e2: "map_of experience_data ''total_years_experience'' = None \<longrightarrow>
          map_of ?cs ''years_experience_estimate'' = Some (PyInt 0)"
    by (simp add: dict_get_def)
  show ?thesis
    by (rule exI [of _ ?cs], rule exI [of _ agg]) (intro conjI c agg e1 e2)
qed

theorem scorer_returns_in_float_range_witness:
  "in_float_range (PyInt (- 2)) \<and>
   (\<exists>component_scores agg.
     compute_enhanced_component_scores ''Python developer'' ''Python, 3 projects'' [''Python'']
       [''py''] [(''most_recent_role'', Other), (''technical_years_experience'', PyInt (- 2))] =
       Inr component_scores \<and>
     aggregate_enhanced_scores component_scores = Inr agg) \<and>
   (\<exists>component_scores agg.
     compute_enhanced_component_scores ''Python developer'' ''Python, 3 projects'' [''Python'']
       [''py''] [(''most_recent_role'', Other)] = Inr component_scores \<and>
     aggregate_enhanced_scores component_scores = Inr agg \<and>
     map_of component_scores ''technical_years_estimate'' = Some (PyInt 0) \<and>
     map_of component_scores ''experience_duration_score'' = Some (Num 0))"
proof -
  have r: "in_float_range (PyInt (- 2))" by (simp add: in_float_range_def)
  then have h1: "\<forall>v. map_of [(''most_recent_role'', Other),
                 (''technical_years_experience'', PyInt (- 2))] ''technical_years_experience'' =
               Some v \<longrightarrow> in_float_range v"
    by simp
  have h2: "\<forall>v. map_of [(''most_recent_role'', Other)] ''technical_years_experience'' = Some v \<longrightarrow>
              in_float_range v"
    by simp
  have n: "map_of [(''most_recent_role'', Other)] ''technical_years_experience'' = None"
    by simp
  from scorer_returns_in_float_range [OF h1, of "''Python developer''" "''Python, 3 projects''"
      "[''Python'']" "[''py'']"]
  have a: "\<exists>component_scores agg.
     compute_enhanced_component_scores ''Python developer'' ''Python, 3 projects'' [''Python'']
       [''py''] [(''most_recent_role'', Other), (''technical_years_experience'', PyInt (- 2))] =
       Inr component_scores \<and>
     aggregate_enhanced_scores component_scores = Inr agg"
    by blast
  from scorer_returns_in_float_range [OF h2, of "''Python developer''" "''Python, 3 projects''"
      "[''Python'']" "[''py'']"]
  obtain component_scores agg where
    "compute_enhanced_component_scores ''Python developer'' ''Python, 3 projects'' [''Python'']
       [''py''] [(''most_recent_role'', Other)] = Inr component_scores"
    "aggregate_enhanced_scores component_scores = Inr agg"
    "map_of [(''most_recent_role'', Other)] ''technical_years_experience'' = None \<longrightarrow>
       map_of component_scores ''technical_years_estimate'' = Some (PyInt 0) \<and>
       map_of component_scores ''experience_duration_score'' = Some (Num 0)"
    by auto
  with n have b: "\<exists>component_scores agg.
     compute_enhanced_component_scores ''Python developer'' ''Python, 3 projects'' [''Python'']
       [''py''] [(''most_recent_role'', Other)] = Inr component_scores \<and>
     aggregate_enhanced_scores component_scores = Inr agg \<and>
     map_of component_scores ''technical_years_estimate'' = Some (PyInt 0) \<and>
     map_of component_scores ''experience_duration_score'' = Some (Num 0)"
    by auto
  from r a b show ?thesis by (intro conjI)
qed

lemma scorer_raises_with_conversion:
  assumes "int_to_float i = Inl e" and "\<not> 1 \<le> i"
  shows "compute_enhanced_component_scores [] [] [] []
           [(''technical_years_experience'', PyInt i)] = Inl e"
proof -
  from assms have e: "experience_component (PyInt i) = Inl e"
    by (simp add: experience_component_def)
  have f: "find_skill_matches [] [] [] =
     Inr \<lparr>matched_skills = [], skill_evidence = [], confidence_scores = [],
          total_jd_skills = 0, match_rate = 0\<rparr>"
    by (rule find_skill_matches_empty)
  show ?thesis
    by (simp add: compute_enhanced_component_scores_def f skill_match_score_def
        skill_context_score_def dict_get_def e)
qed

text \<open>
  Claim C9 as stated fails: an \<open>int\<close> is a number, and for \<open>technical_years_experience =
  -(2 ** 1024)\<close> all four comparisons are false and \<open>technical_years * 0.4\<close> raises
  \<open>OverflowError\<close>.
\<close>

theorem scorer_raises_on_huge_int:
  "compute_enhanced_component_scores [] [] [] []
     [(''technical_years_experience'', PyInt (- (2 ^ 1024)))] = Inl OverflowError"
proof (rule scorer_raises_with_conversion)
  show "int_to_float (- (2 ^ 1024)) = Inl OverflowError"
    by (simp add: int_to_float_def)
  show "\<not> 1 \<le> - (2 ^ 1024 :: int)" by simp
qed

lemma action_verbs_distinct: "distinct action_verbs"
  by (simp add: action_verbs_def)

text \<open>
  Claim C6, as amended. With no impact pattern matching, \<open>impact_score\<close> is
  \<open>min(0.4, 0.05 * N)\<close> where \<open>N\<close> is the number of the nine action verbs that occur in the
  lower-cased text at least once; a verb that occurs twice counts once.
\<close>

theorem impact_score_fallback:
  assumes "impact_count resume_text = 0"
  shows "impact_score resume_text =
           min 0.4 (0.05 * real (card {verb \<in> set action_verbs. contains (lower resume_text) verb}))"
proof -
  have "action_count resume_text =
          card (set (filter (\<lambda>verb. contains (lower resume_text) verb) action_verbs))"
    unfolding action_count_def
    by (rule distinct_card [symmetric]) (simp add: action_verbs_distinct)
  then have "action_count resume_text =
          card {verb \<in> set action_verbs. contains (lower resume_text) verb}"
    by simp
  with assms show ?thesis by (simp add: impact_score_def mult.commute)
qed

theorem impact_score_fallback_witness:
  "impact_count ''led led'' = 0 \<and>
   impact_score ''led led'' =
     min 0.4 (0.05 * real (card {verb \<in> set action_verbs. contains (lower ''led led'') verb})) \<and>
   impact_score ''led led'' = 0.05"
proof -
  have h: "impact_count ''led led'' = 0" by code_simp
  have v: "impact_score ''led led'' = 0.05" by code_simp
  from impact_score_fallback [OF h] h v show ?thesis by simp
qed

text \<open>
  Claim C6 as stated counts occurrences; the code counts verbs. The text \<open>led led\<close> has two
  occurrences of one verb and no impact pattern.
\<close>

theorem impact_score_counts_verbs_not_occurrences:
  "impact_count ''led led'' = 0 \<and> verb_occurrences ''led led'' = 2 \<and>
   impact_score ''led led'' \<noteq> min 0.4 (0.05 * real (verb_occurrences ''led led''))"
  by code_simp

text \<open>
  Claim C10: the final score is clamped from above only. With the other six components at 0
  and the experience component at \<open>experience_duration_score (-1) = -0.4\<close> the aggregate is
  negative, and so is the result of the whole scorer on an empty resume with
  \<open>technical_years_experience = -10\<close>.
\<close>

theorem negative_final_score:
  "experience_duration_score (- 1) = - 0.4 \<and>
   map_sum id (\<lambda>r. (score_0_100 r, score_0_10 r))
     (aggregate_enhanced_scores
        [(''skill_match_score'', Num 0), (''skill_context_score'', Num 0),
         (''experience_duration_score'', Num (- 0.4)), (''impact_score'', Num 0),
         (''project_score'', Num 0), (''education_score'', Num 0),
         (''relevance_score'', Num 0)]) = Inr (- 7.2, - 0.72) \<and>
   map_sum id (\<lambda>r. (score_0_100 r, score_0_10 r))
     (score_resume [] [] [] [] [(''technical_years_experience'', Num (- 10))]) =
     Inr (- 64.8, - 6.48)"
  by code_simp

end
